theory Spec2Isabelle
  imports Complex_Main "HOL-Library.Word"
begin

unbundle bit_operations_syntax

text \<open>
  A model of the stereo presentation demo of \<^verbatim>\<open>src/Minimal/main.cpp\<close>: the lag ring
  buffer (\<open>Buffer\<close>), the render-target layout computed by the constructor of
  \<open>RiftApp\<close>, the per-frame input handling \<open>RiftApp::update\<close> and the per-frame
  drawing \<open>RiftApp::draw\<close>, each statement of the source as a state transformer.
  Calls into the device runtime and the graphics library appear only through the values
  they return (the polled controller state, the sampled eye poses, the reported texture
  sizes) and through the list of \<open>renderScene\<close> calls a frame makes.
\<close>

section \<open>The lag ring buffer (class Buffer)\<close>

text \<open>
  C's remainder truncates towards zero, HOL's \<open>mod\<close> rounds down; the two agree on
  non-negative operands, which are the only ones the buffer's cursors ever produce.
\<close>

definition c_rem :: "int \<Rightarrow> int \<Rightarrow> int" where
  "c_rem a b = sgn a * (\<bar>a\<bar> mod \<bar>b\<bar>)"

text \<open>
  \<^verbatim>\<open>vec3 positions[30]; int read, write, num;\<close>
  The element type is left open: the buffer only moves values. The cursor fields carry
  the prefix \<open>buf_\<close> because \<open>write\<close> is reserved in Isabelle.
\<close>

record 'a Buffer =
  positions :: "'a list"
  buf_read :: int
  buf_write :: int
  buf_num :: int

text \<open>
  The constructor sets the three integers and leaves the array as it is: \<open>mem\<close> is
  whatever the thirty slots hold before the first push.
\<close>

definition Buffer_new :: "'a list \<Rightarrow> 'a Buffer" where
  "Buffer_new mem = \<lparr>positions = mem, buf_read = 0, buf_write = 0, buf_num = 0\<rparr>"

definition push :: "'a Buffer \<Rightarrow> 'a \<Rightarrow> 'a Buffer" where
  "push b position =
     b\<lparr>positions := (positions b)[nat (buf_write b) := position],
       buf_write := c_rem (buf_write b + 1) 30,
       buf_num := (if buf_num b < 30 then buf_num b + 1 else buf_num b)\<rparr>"

text \<open>
  \<open>pop\<close> returns the value read and the buffer with its read cursor moved. An index
  outside the array (possible only for a lag outside 0..29) has no defined result in C++:
  it is \<open>None\<close> here.
\<close>

definition pop :: "'a Buffer \<Rightarrow> int \<Rightarrow> ('a \<times> 'a Buffer) option" where
  "pop b lag =
     (if buf_num b = 30 then
        (let i = c_rem (buf_read b - lag + 30) 30 in
         if 0 \<le> i \<and> i < int (length (positions b))
         then Some (positions b ! nat i, b\<lparr>buf_read := c_rem (buf_read b + 1) 30\<rparr>)
         else None)
      else
        (if 0 < length (positions b) then Some (positions b ! 0, b) else None))"

text \<open>A sequence of calls on one buffer; a pop's value is dropped, its effect kept.\<close>

datatype 'a buf_op = Push 'a | Pop int

fun exec :: "'a Buffer \<Rightarrow> 'a buf_op list \<Rightarrow> 'a Buffer option" where
  "exec b [] = Some b"
| "exec b (Push v # ops) = exec (push b v) ops"
| "exec b (Pop lag # ops) = (case pop b lag of None \<Rightarrow> None | Some (_, b') \<Rightarrow> exec b' ops)"

fun pushed :: "'a buf_op list \<Rightarrow> 'a list" where
  "pushed [] = []"
| "pushed (Push v # ops) = v # pushed ops"
| "pushed (Pop lag # ops) = pushed ops"

text \<open>
  What \<open>ExampleApp::renderScene\<close> does with the buffer on each call: one push of the
  sampled hand position, then one pop with the current tracking lag. \<open>render_pops\<close>
  runs a sequence of such calls and returns the popped values in order.
\<close>

fun render_pops :: "'a Buffer \<Rightarrow> ('a \<times> int) list \<Rightarrow> 'a option list" where
  "render_pops b [] = []"
| "render_pops b ((v, lag) # calls) =
     (case pop (push b v) lag of
        None \<Rightarrow> [None]
      | Some (x, b') \<Rightarrow> Some x # render_pops b' calls)"

section \<open>Eyes, hands and the render-target layout (RiftApp's constructor)\<close>

datatype ovrEyeType = ovrEye_Left | ovrEye_Right

datatype ovrHandType = ovrHand_Left | ovrHand_Right

text \<open>
  \<open>ovr::for_each_eye\<close> calls its argument for the left eye, then for the right eye.
\<close>

definition for_each_eye :: "(ovrEyeType \<Rightarrow> 's \<Rightarrow> 's) \<Rightarrow> 's \<Rightarrow> 's" where
  "for_each_eye function s = function ovrEye_Right (function ovrEye_Left s)"

text \<open>
  Sizes and positions are 32-bit values: \<open>uvec2\<close> components are \<open>uint32_t\<close>, the
  fields of \<open>ovrSizei\<close> and \<open>ovrVector2i\<close> are \<open>int\<close>. The casts between the two in the
  constructor keep the bit pattern, so both are \<open>32 word\<close>; \<open>+\<close> wraps and \<open>max\<close>
  compares unsigned, as \<open>std::max\<close> on \<open>uint32_t\<close> does. A pair is (x, y) or (w, h).
\<close>

type_synonym vec2_32 = "32 word \<times> 32 word"

text \<open>A viewport rectangle: (Pos, Size).\<close>

type_synonym ovrRecti = "vec2_32 \<times> vec2_32"

record layout =
  renderTargetSize :: vec2_32
  mirrorSize :: vec2_32
  Viewport :: "ovrEyeType \<Rightarrow> ovrRecti"

text \<open>
  Modelled from the spec: the value of a default-constructed \<open>glm::uvec2\<close> (glm is a
  library outside the repository). The constructor accumulates into
  \<open>_renderTargetSize\<close> without assigning it first, and the spec gives the width as the
  sum of the eye widths and the height as their maximum: the start value is zero.
\<close>

definition uvec2_default :: vec2_32 where
  "uvec2_default = (0, 0)"

text \<open>
  The layout part of the constructor's per-eye body; \<open>eyeSize\<close> is what
  \<open>ovr_GetFovTextureSize\<close> reports for the eye.
\<close>

definition layout_eye :: "(ovrEyeType \<Rightarrow> vec2_32) \<Rightarrow> ovrEyeType \<Rightarrow> layout \<Rightarrow> layout" where
  "layout_eye eyeSize eye s =
     (let sz = eyeSize eye;
          s1 = s\<lparr>Viewport := (Viewport s)(eye := ((fst (renderTargetSize s), 0), sz))\<rparr>;
          s2 = s1\<lparr>renderTargetSize :=
                    (fst (renderTargetSize s1), max (snd (renderTargetSize s1)) (snd sz))\<rparr>
      in s2\<lparr>renderTargetSize := (fst (renderTargetSize s2) + fst sz, snd (renderTargetSize s2))\<rparr>)"

text \<open>
  \<open>_sceneLayer\<close> is zeroed by \<open>memset\<close> before the loop; after it the mirror size is
  a quarter of the render-target size in each direction.
\<close>

definition RiftApp_layout :: "(ovrEyeType \<Rightarrow> vec2_32) \<Rightarrow> layout" where
  "RiftApp_layout eyeSize =
     (let s = for_each_eye (layout_eye eyeSize)
                \<lparr>renderTargetSize = uvec2_default, mirrorSize = uvec2_default,
                 Viewport = (\<lambda>eye. ((0, 0), (0, 0)))\<rparr>
      in s\<lparr>mirrorSize := (fst (renderTargetSize s) div 4, snd (renderTargetSize s) div 4)\<rparr>)"

section \<open>Controller input\<close>

text \<open>
  The fields of \<open>ovrInputState\<close> that \<open>RiftApp::update\<close> reads. \<open>Buttons\<close> is an
  \<open>unsigned int\<close> bit mask. The trigger and thumbstick values are \<open>float\<close>s; they are
  modelled as reals, and the constants they are compared with by their decimal values.
  A NaN fails every comparison, as a real strictly between the two thresholds does.
\<close>

record ovrInputState =
  Buttons :: "32 word"
  IndexTrigger :: "ovrHandType \<Rightarrow> real"
  HandTrigger :: "ovrHandType \<Rightarrow> real"
  Thumbstick_x :: "ovrHandType \<Rightarrow> real"

text \<open>The button masks, as the Oculus SDK header \<open>OVR_CAPI.h\<close> gives them.\<close>

definition ovrButton_A :: "32 word" where "ovrButton_A = 0x00000001"
definition ovrButton_B :: "32 word" where "ovrButton_B = 0x00000002"
definition ovrButton_RThumb :: "32 word" where "ovrButton_RThumb = 0x00000004"
definition ovrButton_X :: "32 word" where "ovrButton_X = 0x00000100"
definition ovrButton_Y :: "32 word" where "ovrButton_Y = 0x00000200"
definition ovrButton_LThumb :: "32 word" where "ovrButton_LThumb = 0x00000400"

section \<open>Floating-point arithmetic\<close>

text \<open>
  \<open>float\<close> and \<open>double\<close> are the IEEE 754 binary formats with 24 and 53 significant
  bits. A floating-point number is modelled by the real number it stands for. A
  conversion, a sum or a difference is the exact result rounded to the nearest number
  with that many significant bits, a tie going to the one whose last bit is even;
  comparisons, negation, halving and the absolute value are exact. The exponent is not
  bounded: infinities, NaN and subnormal numbers are not modelled. They do not arise in
  the steps of the interocular distance: the sum or difference of a \<open>double\<close> and the
  \<open>double\<close> nearest to 0.01 is zero or at least \<open>2 ^ -59\<close> in magnitude. The cast of
  half the distance to \<open>float\<close> would differ for a distance below \<open>2 ^ -125\<close>; no
  property below reads the offsets it sets.

  \<open>round_even y\<close> is the integer nearest to \<open>y\<close>, \<open>exponent x\<close> the power of two at or
  below \<open>\<bar>x\<bar>\<close>, \<open>ulp p x\<close> the distance between neighbouring numbers of \<open>p\<close>
  significant bits around \<open>x\<close>.
\<close>

definition round_even :: "real \<Rightarrow> int" where
  "round_even y =
     (let f = \<lfloor>y\<rfloor>
      in if y - of_int f < 1 / 2 then f
         else if 1 / 2 < y - of_int f then f + 1
         else if even f then f else f + 1)"

definition exponent :: "real \<Rightarrow> int" where
  "exponent x = \<lfloor>log 2 \<bar>x\<bar>\<rfloor>"

definition ulp :: "nat \<Rightarrow> real \<Rightarrow> real" where
  "ulp p x = 2 powr (of_int (exponent x) - (real p - 1))"

definition round_to :: "nat \<Rightarrow> real \<Rightarrow> real" where
  "round_to p x = (if x = 0 then 0 else of_int (round_even (x / ulp p x)) * ulp p x)"

definition to_float :: "real \<Rightarrow> real" where
  "to_float x = round_to 24 x"

definition to_double :: "real \<Rightarrow> real" where
  "to_double x = round_to 53 x"

section \<open>The application state\<close>

text \<open>
  A \<open>mat4\<close> is its four columns, \<open>m[0]\<close> to \<open>m[3]\<close>; the column type is left open.
\<close>

type_synonym 'c mat4 = "'c \<times> 'c \<times> 'c \<times> 'c"

text \<open>
  The file-level variables (\<open>button_A\<close> to \<open>superRotation\<close>) and the fields of
  \<open>RiftApp\<close> that \<open>update\<close> and \<open>draw\<close> read or write. A two-element array indexed
  by eye is a pair (left, right). \<open>iod\<close> and \<open>iod_origin\<close> are \<open>double\<close>s.
  \<open>hmdToEyePose_x\<close> holds the two \<open>_viewScaleDesc.HmdToEyePose[eye].Position.x\<close>,
  which are \<open>float\<close>s.
\<close>

record 'c RiftApp =
  button_A :: int
  button_B :: int
  button_X :: int
  isPressed :: bool
  isTouched :: bool
  set_Cubesize :: int
  tracking_lag :: int
  render_lag :: int
  superRotation :: bool
  eyeProjections :: "'c mat4 \<times> 'c mat4"
  projection_old :: "'c mat4 \<times> 'c mat4"
  left_pos_old :: "'c mat4"
  left_pos_new :: "'c mat4"
  right_pos_old :: "'c mat4"
  right_pos_new :: "'c mat4"
  iod :: real
  iod_origin :: real
  hmdToEyePose_x :: "real \<times> real"
  set_iod :: int
  count :: int

text \<open>
  The state when the render loop starts: the initialisers of the variables, and what the
  constructor computes. \<open>projs\<close> are the two projections built from the fields of view,
  \<open>xs\<close> the x offsets of the two eyes reported by the device; \<open>mem\<close> stands for the
  fields the constructor leaves unassigned (the saved projections and the four poses).
  The distance is the absolute value of the difference of the two offsets, a \<open>float\<close>
  subtraction (\<open>abs\<close> being the absolute value of a floating-point number), stored in
  a \<open>double\<close>.
\<close>

definition RiftApp_new ::
  "'c mat4 \<times> 'c mat4 \<Rightarrow> real \<times> real \<Rightarrow> ('c mat4 \<times> 'c mat4) \<times> 'c mat4 \<times> 'c mat4 \<times> 'c mat4 \<times> 'c mat4
     \<Rightarrow> 'c RiftApp" where
  "RiftApp_new projs xs mem =
     (case mem of (saved, lold, lnew, rold, rnew) \<Rightarrow>
     \<lparr>button_A = 1, button_B = 1, button_X = 1, isPressed = False, isTouched = False,
      set_Cubesize = 1, tracking_lag = 0, render_lag = 0, superRotation = False,
      eyeProjections = projs, projection_old = saved,
      left_pos_old = lold, left_pos_new = lnew, right_pos_old = rold, right_pos_new = rnew,
      iod = \<bar>to_float (fst xs - snd xs)\<bar>, iod_origin = \<bar>to_float (fst xs - snd xs)\<bar>,
      hmdToEyePose_x = xs, set_iod = 1, count = 0\<rparr>)"

section \<open>RiftApp::update\<close>

subsection \<open>Triggers\<close>

definition triggers_released :: "ovrInputState \<Rightarrow> bool" where
  "triggers_released i =
     (IndexTrigger i ovrHand_Left < 0.01 \<and> IndexTrigger i ovrHand_Right < 0.01
      \<and> HandTrigger i ovrHand_Left < 0.01 \<and> HandTrigger i ovrHand_Right < 0.01)"

definition release_touch :: "ovrInputState \<Rightarrow> 'c RiftApp \<Rightarrow> 'c RiftApp" where
  "release_touch i g = (if triggers_released i then g\<lparr>isTouched := False\<rparr> else g)"

definition dec_tracking_lag :: "ovrInputState \<Rightarrow> 'c RiftApp \<Rightarrow> 'c RiftApp" where
  "dec_tracking_lag i g =
     (if IndexTrigger i ovrHand_Left > 0.1 \<and> tracking_lag g > 0 \<and> \<not> isTouched g
      then g\<lparr>isTouched := True, tracking_lag := tracking_lag g - 1\<rparr> else g)"

definition inc_tracking_lag :: "ovrInputState \<Rightarrow> 'c RiftApp \<Rightarrow> 'c RiftApp" where
  "inc_tracking_lag i g =
     (if IndexTrigger i ovrHand_Right > 0.1 \<and> tracking_lag g < 29 \<and> \<not> isTouched g
      then g\<lparr>isTouched := True, tracking_lag := tracking_lag g + 1\<rparr> else g)"

definition dec_render_lag :: "ovrInputState \<Rightarrow> 'c RiftApp \<Rightarrow> 'c RiftApp" where
  "dec_render_lag i g =
     (if HandTrigger i ovrHand_Left > 0.1 \<and> render_lag g > 0 \<and> \<not> isTouched g
      then g\<lparr>isTouched := True, render_lag := render_lag g - 1\<rparr> else g)"

definition inc_render_lag :: "ovrInputState \<Rightarrow> 'c RiftApp \<Rightarrow> 'c RiftApp" where
  "inc_render_lag i g =
     (if HandTrigger i ovrHand_Right > 0.1 \<and> render_lag g < 10 \<and> \<not> isTouched g
      then g\<lparr>isTouched := True, render_lag := render_lag g + 1\<rparr> else g)"

text \<open>The five statements run one after the other, each on the result of the one before.\<close>

definition update_triggers :: "ovrInputState \<Rightarrow> 'c RiftApp \<Rightarrow> 'c RiftApp" where
  "update_triggers i g =
     inc_render_lag i (dec_render_lag i (inc_tracking_lag i (dec_tracking_lag i
       (release_touch i g))))"

subsection \<open>Thumbsticks\<close>

text \<open>
  \<open>inputState.Buttons && ovrButton_RThumb\<close> is the logical conjunction of two integers:
  true when both are non-zero.
\<close>

definition logical_and :: "32 word \<Rightarrow> 32 word \<Rightarrow> bool" where
  "logical_and a b = (a \<noteq> 0 \<and> b \<noteq> 0)"

definition update_set_iod :: "ovrInputState \<Rightarrow> 'c RiftApp \<Rightarrow> 'c RiftApp" where
  "update_set_iod i g =
     (if Thumbstick_x i ovrHand_Right < 0 then g\<lparr>set_iod := 2\<rparr>
      else if Thumbstick_x i ovrHand_Right > 0 then g\<lparr>set_iod := 3\<rparr>
      else if logical_and (Buttons i) ovrButton_RThumb then g\<lparr>set_iod := 4\<rparr>
      else g)"

text \<open>The cube-size mode is first set to 1, then overwritten as the left thumbstick asks.\<close>

definition update_set_Cubesize :: "ovrInputState \<Rightarrow> 'c RiftApp \<Rightarrow> 'c RiftApp" where
  "update_set_Cubesize i g =
     (let g1 = g\<lparr>set_Cubesize := 1\<rparr>
      in if Thumbstick_x i ovrHand_Left < 0 then g1\<lparr>set_Cubesize := 2\<rparr>
         else if Thumbstick_x i ovrHand_Left > 0 then g1\<lparr>set_Cubesize := 3\<rparr>
         else if logical_and (Buttons i) ovrButton_LThumb then g1\<lparr>set_Cubesize := 4\<rparr>
         else g1)"

subsection \<open>Buttons\<close>

definition release_press :: "ovrInputState \<Rightarrow> 'c RiftApp \<Rightarrow> 'c RiftApp" where
  "release_press i g = (if Buttons i = 0 then g\<lparr>isPressed := False\<rparr> else g)"

definition press_buttons :: "ovrInputState \<Rightarrow> 'c RiftApp \<Rightarrow> 'c RiftApp" where
  "press_buttons i g =
     (if Buttons i AND ovrButton_A \<noteq> 0 \<and> \<not> isPressed g then
        g\<lparr>isPressed := True, button_A := (if button_A g = 5 then 1 else button_A g + 1)\<rparr>
      else if Buttons i AND ovrButton_B \<noteq> 0 \<and> \<not> isPressed g then
        g\<lparr>isPressed := True, button_B := (if button_B g = 4 then 1 else button_B g + 1)\<rparr>
      else if Buttons i AND ovrButton_X \<noteq> 0 \<and> \<not> isPressed g then
        g\<lparr>isPressed := True, button_X := (if button_X g = 4 then 1 else button_X g + 1)\<rparr>
      else if Buttons i AND ovrButton_Y \<noteq> 0 \<and> \<not> isPressed g then
        g\<lparr>isPressed := True, superRotation := (\<not> superRotation g)\<rparr>
      else g)"

definition update_buttons :: "ovrInputState \<Rightarrow> 'c RiftApp \<Rightarrow> 'c RiftApp" where
  "update_buttons i g = press_buttons i (release_press i g)"

subsection \<open>Interocular distance and the freeze countdown\<close>

text \<open>
  \<open>iod < 0.3\<close>, \<open>iod += 0.01\<close> and their mirror images work on \<open>double\<close>s: the
  literals are the \<open>double\<close>s nearest to 0.3 and 0.01, the sum and the difference are
  rounded. The two offsets are then set to plus and minus half the distance, cast to
  \<open>float\<close>.
\<close>

definition change_iod :: "'c RiftApp \<Rightarrow> 'c RiftApp" where
  "change_iod g =
     (let g1 = (if set_iod g = 3 \<and> iod g < to_double 0.3
                  then g\<lparr>iod := to_double (iod g + to_double 0.01)\<rparr>
                else if set_iod g = 2 \<and> iod g > - to_double 0.3
                  then g\<lparr>iod := to_double (iod g - to_double 0.01)\<rparr>
                else if set_iod g = 4 then g\<lparr>iod := iod_origin g\<rparr>
                else g)
      in g1\<lparr>hmdToEyePose_x := (to_float (- iod g1 / 2), to_float (iod g1 / 2)),
            set_iod := 1\<rparr>)"

definition update_count :: "'c RiftApp \<Rightarrow> 'c RiftApp" where
  "update_count g =
     (if count g = 0 then g\<lparr>count := render_lag g\<rparr> else g\<lparr>count := count g - 1\<rparr>)"

subsection \<open>The whole function\<close>

text \<open>
  The argument is \<open>None\<close> when \<open>ovr_GetInputState\<close> fails: the input block is skipped,
  the interocular-distance step and the countdown run all the same.
\<close>

definition update_input :: "ovrInputState \<Rightarrow> 'c RiftApp \<Rightarrow> 'c RiftApp" where
  "update_input i g =
     update_buttons i (update_set_Cubesize i (update_set_iod i (update_triggers i g)))"

definition update :: "ovrInputState option \<Rightarrow> 'c RiftApp \<Rightarrow> 'c RiftApp" where
  "update inputState g =
     update_count (change_iod (case inputState of None \<Rightarrow> g | Some i \<Rightarrow> update_input i g))"

section \<open>RiftApp::draw\<close>

text \<open>
  \<open>eyePoses\<close> are the two poses \<open>ovr_GetEyePoses\<close> returns this frame, already
  converted by \<open>ovr::toGlm\<close>.
\<close>

definition freeze_decision :: "'c mat4 \<times> 'c mat4 \<Rightarrow> 'c RiftApp \<Rightarrow> 'c RiftApp" where
  "freeze_decision eyePoses g =
     (if count g = 0 then
        g\<lparr>left_pos_new := fst eyePoses, right_pos_new := snd eyePoses,
          projection_old := eyeProjections g\<rparr>
      else
        g\<lparr>left_pos_new := left_pos_old g, right_pos_new := right_pos_old g,
          eyeProjections := projection_old g\<rparr>)"

text \<open>\<open>new[3] = old[3]\<close>, and \<open>new[0] = old[0]; new[1] = old[1]; new[2] = old[2]\<close>.\<close>

fun keep_translation :: "'c mat4 \<Rightarrow> 'c mat4 \<Rightarrow> 'c mat4" where
  "keep_translation (n0, n1, n2, n3) (o0, o1, o2, o3) = (n0, n1, n2, o3)"

fun keep_rotation :: "'c mat4 \<Rightarrow> 'c mat4 \<Rightarrow> 'c mat4" where
  "keep_rotation (n0, n1, n2, n3) (o0, o1, o2, o3) = (o0, o1, o2, n3)"

definition stabilize :: "'c RiftApp \<Rightarrow> 'c RiftApp" where
  "stabilize g =
     (if button_B g = 2 then
        g\<lparr>left_pos_new := keep_translation (left_pos_new g) (left_pos_old g),
          right_pos_new := keep_translation (right_pos_new g) (right_pos_old g)\<rparr>
      else if button_B g = 3 then
        g\<lparr>left_pos_new := keep_rotation (left_pos_new g) (left_pos_old g),
          right_pos_new := keep_rotation (right_pos_new g) (right_pos_old g)\<rparr>
      else if button_B g = 4 then
        g\<lparr>left_pos_new := left_pos_old g, right_pos_new := right_pos_old g\<rparr>
      else g)"

text \<open>
  One call of \<open>renderScene\<close>: the eye whose viewport is set when the call is made, and
  the three arguments (projection, head pose, isLeft).
\<close>

type_synonym 'c render_call = "ovrEyeType \<times> 'c mat4 \<times> 'c mat4 \<times> bool"

definition at_eye :: "ovrEyeType \<Rightarrow> 'a \<times> 'a \<Rightarrow> 'a" where
  "at_eye eye p = (case eye of ovrEye_Left \<Rightarrow> fst p | ovrEye_Right \<Rightarrow> snd p)"

text \<open>The body of the per-eye loop of \<open>draw\<close>: the calls made for one eye.\<close>

definition eye_calls :: "'c RiftApp \<Rightarrow> ovrEyeType \<Rightarrow> 'c render_call list" where
  "eye_calls g eye =
     (if button_A g = 1 then
        (if eye = ovrEye_Left
         then [(eye, at_eye ovrEye_Left (eyeProjections g), left_pos_new g, True)]
         else [(eye, at_eye ovrEye_Right (eyeProjections g), right_pos_new g, False)])
      else if button_A g = 2 then
        [(eye, at_eye eye (eyeProjections g), left_pos_new g, True)]
      else if button_A g = 3 then
        (if eye = ovrEye_Left
         then [(eye, at_eye ovrEye_Left (eyeProjections g), left_pos_new g, True)]
         else [])
      else if button_A g = 4 then
        (if eye = ovrEye_Right
         then [(eye, at_eye ovrEye_Right (eyeProjections g), right_pos_new g, False)]
         else [])
      else if button_A g = 5 then
        (if eye = ovrEye_Left
         then [(eye, at_eye ovrEye_Right (eyeProjections g), right_pos_new g, False)]
         else [(eye, at_eye ovrEye_Left (eyeProjections g), left_pos_new g, True)])
      else [])"

definition dispatch :: "'c RiftApp \<Rightarrow> 'c render_call list" where
  "dispatch g = eye_calls g ovrEye_Left @ eye_calls g ovrEye_Right"

text \<open>\<open>draw\<close> returns the calls it made and the state it leaves.\<close>

definition draw :: "'c RiftApp \<Rightarrow> 'c mat4 \<times> 'c mat4 \<Rightarrow> 'c render_call list \<times> 'c RiftApp" where
  "draw g eyePoses =
     (let g1 = stabilize (freeze_decision eyePoses g)
      in (dispatch g1, g1\<lparr>left_pos_old := left_pos_new g1, right_pos_old := right_pos_new g1\<rparr>))"

section \<open>Scene::render\<close>

text \<open>
  The three statements that resize the cubes, as a function of the mode \<open>set_Cubesize\<close>.
  \<open>cubeSize\<close> is always a uniform scaling matrix: it starts as \<open>scale 0.1\<close> and is only
  multiplied by \<open>scale 0.99\<close> or \<open>scale 1.01\<close> or set back to \<open>scale 0.1\<close>. It is
  modelled by its factor \<open>cubeSize[0][0]\<close>, a real with exact arithmetic.
\<close>

definition render_cubeSize :: "int \<Rightarrow> real \<Rightarrow> real" where
  "render_cubeSize mode cubeSize =
     (let c1 = (if mode = 2 \<and> cubeSize > 0.01 then cubeSize * 0.99 else cubeSize);
          c2 = (if mode = 3 \<and> c1 < 0.5 then c1 * 1.01 else c1)
      in if mode = 4 then 0.1 else c2)"

section \<open>The render loop\<close>

text \<open>
  One iteration of the loop of \<open>GlfwApp::run\<close> is \<open>update\<close>, then \<open>draw\<close>. Its input is
  the controller state polled in \<open>update\<close> and the eye poses sampled in \<open>draw\<close>.
\<close>

type_synonym 'c frame_input = "ovrInputState option \<times> ('c mat4 \<times> 'c mat4)"

definition frame :: "'c RiftApp \<Rightarrow> 'c frame_input \<Rightarrow> 'c RiftApp" where
  "frame g f = snd (draw (update (fst f) g) (snd f))"

definition frame_calls :: "'c RiftApp \<Rightarrow> 'c frame_input \<Rightarrow> 'c render_call list" where
  "frame_calls g f = fst (draw (update (fst f) g) (snd f))"

fun run :: "'c RiftApp \<Rightarrow> 'c frame_input list \<Rightarrow> 'c RiftApp" where
  "run g [] = g"
| "run g (f # fs) = run (frame g f) fs"

text \<open>\<open>trace g fs ! n\<close> is the state after the first \<open>n\<close> frames.\<close>

fun trace :: "'c RiftApp \<Rightarrow> 'c frame_input list \<Rightarrow> 'c RiftApp list" where
  "trace g [] = [g]"
| "trace g (f # fs) = g # trace (frame g f) fs"

section \<open>Vocabulary of the properties\<close>

subsection \<open>The ring buffer in steady use\<close>

text \<open>
  How many calls back the value lies that a pop with the given lag returns once the
  buffer is full (proved below): 29 for lag 0, 0 for lag 1, 28 for lag 29.
\<close>

definition delay :: "int \<Rightarrow> nat" where
  "delay lag = nat ((lag + 29) mod 30)"

text \<open>
  The state of the buffer after the calls of \<open>render_pops\<close> that pushed \<open>vs\<close>: the
  last thirty values sit at their index modulo 30, and from the thirtieth call on the
  read cursor trails the count by 29.
\<close>

definition ring_inv :: "'a list \<Rightarrow> 'a Buffer \<Rightarrow> bool" where
  "ring_inv vs b =
     (length (positions b) = 30
      \<and> buf_write b = int (length vs mod 30)
      \<and> buf_num b = int (min (length vs) 30)
      \<and> buf_read b = (if length vs < 30 then 0 else int ((length vs - 29) mod 30))
      \<and> (\<forall>j<length vs. length vs \<le> j + 30 \<longrightarrow> positions b ! (j mod 30) = vs ! j))"

subsection \<open>Counting changes along a run\<close>

text \<open>
  How many of the four button-driven mode fields, and how many of the two lag counters,
  differ between two states; \<open>total d\<close> adds \<open>d\<close> over the consecutive states of a
  list. A frame counts as not released when its poll failed or the polled state is not
  the fully released one.
\<close>

definition mode_changes :: "'c RiftApp \<Rightarrow> 'c RiftApp \<Rightarrow> nat" where
  "mode_changes g g' =
     (if button_A g' = button_A g then 0 else 1) + (if button_B g' = button_B g then 0 else 1)
     + (if button_X g' = button_X g then 0 else 1)
     + (if superRotation g' = superRotation g then 0 else 1)"

definition lag_changes :: "'c RiftApp \<Rightarrow> 'c RiftApp \<Rightarrow> nat" where
  "lag_changes g g' =
     (if tracking_lag g' = tracking_lag g then 0 else 1)
     + (if render_lag g' = render_lag g then 0 else 1)"

fun total :: "('s \<Rightarrow> 's \<Rightarrow> nat) \<Rightarrow> 's list \<Rightarrow> nat" where
  "total d (a # b # xs) = d a b + total d (b # xs)"
| "total d xs = 0"

definition buttons_down :: "'c frame_input \<Rightarrow> bool" where
  "buttons_down f = (case fst f of None \<Rightarrow> True | Some i \<Rightarrow> Buttons i \<noteq> 0)"

definition triggers_down :: "'c frame_input \<Rightarrow> bool" where
  "triggers_down f = (case fst f of None \<Rightarrow> True | Some i \<Rightarrow> \<not> triggers_released i)"

subsection \<open>The four mapped buttons\<close>

text \<open>
  The buttons in the order of the \<open>if\<close> chain, each with its mask and the field it
  drives (\<open>superRotation\<close> read as 0 or 1); \<open>earlier k\<close> are the buttons tested
  before \<open>k\<close>. A button is held over a frame when the poll fails or shows it down.
\<close>

datatype mapped_button = Button_A | Button_B | Button_X | Button_Y

fun mask :: "mapped_button \<Rightarrow> 32 word" where
  "mask Button_A = ovrButton_A"
| "mask Button_B = ovrButton_B"
| "mask Button_X = ovrButton_X"
| "mask Button_Y = ovrButton_Y"

fun mode_field :: "mapped_button \<Rightarrow> 'c RiftApp \<Rightarrow> int" where
  "mode_field Button_A g = button_A g"
| "mode_field Button_B g = button_B g"
| "mode_field Button_X g = button_X g"
| "mode_field Button_Y g = (if superRotation g then 1 else 0)"

fun earlier :: "mapped_button \<Rightarrow> mapped_button list" where
  "earlier Button_A = []"
| "earlier Button_B = [Button_A]"
| "earlier Button_X = [Button_A, Button_B]"
| "earlier Button_Y = [Button_A, Button_B, Button_X]"

definition down :: "mapped_button \<Rightarrow> ovrInputState \<Rightarrow> bool" where
  "down k i = (Buttons i AND mask k \<noteq> 0)"

definition held :: "mapped_button \<Rightarrow> 'c frame_input \<Rightarrow> bool" where
  "held k f = (case fst f of None \<Rightarrow> True | Some i \<Rightarrow> down k i)"

subsection \<open>Frames by what the right thumbstick asks for\<close>

definition increase_frame :: "'c frame_input \<Rightarrow> bool" where
  "increase_frame f = (case fst f of None \<Rightarrow> False | Some i \<Rightarrow> Thumbstick_x i ovrHand_Right > 0)"

definition decrease_frame :: "'c frame_input \<Rightarrow> bool" where
  "decrease_frame f = (case fst f of None \<Rightarrow> False | Some i \<Rightarrow> Thumbstick_x i ovrHand_Right < 0)"

definition reset_frame :: "'c frame_input \<Rightarrow> bool" where
  "reset_frame f =
     (case fst f of None \<Rightarrow> False
      | Some i \<Rightarrow> Thumbstick_x i ovrHand_Right = 0 \<and> Buttons i \<noteq> 0)"

subsection \<open>States the loop can be in\<close>

text \<open>
  The countdown lies between 0 and the rendering lag, and the saved poses and
  projections are those of the last \<open>draw\<close>, unless no frame has run yet (countdown and
  lag both 0).
\<close>

definition settled :: "'c RiftApp \<Rightarrow> bool" where
  "settled s =
     (0 \<le> count s \<and> count s \<le> render_lag s
      \<and> (left_pos_old s = left_pos_new s \<and> right_pos_old s = right_pos_new s
           \<and> projection_old s = eyeProjections s
          \<or> count s = 0 \<and> render_lag s = 0))"

section \<open>Concrete inputs\<close>

text \<open>
  Values for running the definitions: a controller at rest, with a given button mask,
  with given trigger values (index left, index right, hand left, hand right) or with
  given thumbstick x values (left, right); matrices told apart by a number; a start
  state with the projections \<open>M 1\<close> and \<open>M 2\<close> and the eyes 62.5 mm apart, and one
  with the offsets at \<open>-0.125\<close> and \<open>0.125\<close>, a distance of 0.25. All four offsets are
  \<open>float\<close>s.
\<close>

definition idle :: ovrInputState where
  "idle = \<lparr>Buttons = 0, IndexTrigger = (\<lambda>hand. 0), HandTrigger = (\<lambda>hand. 0),
            Thumbstick_x = (\<lambda>hand. 0)\<rparr>"

definition press :: "32 word \<Rightarrow> ovrInputState" where
  "press b = idle\<lparr>Buttons := b\<rparr>"

definition squeeze :: "real \<Rightarrow> real \<Rightarrow> real \<Rightarrow> real \<Rightarrow> ovrInputState" where
  "squeeze il ir hl hr =
     idle\<lparr>IndexTrigger := (\<lambda>hand. case hand of ovrHand_Left \<Rightarrow> il | ovrHand_Right \<Rightarrow> ir),
          HandTrigger := (\<lambda>hand. case hand of ovrHand_Left \<Rightarrow> hl | ovrHand_Right \<Rightarrow> hr)\<rparr>"

definition thumb :: "real \<Rightarrow> real \<Rightarrow> ovrInputState" where
  "thumb xl xr =
     idle\<lparr>Thumbstick_x := (\<lambda>hand. case hand of ovrHand_Left \<Rightarrow> xl | ovrHand_Right \<Rightarrow> xr)\<rparr>"

definition M :: "nat \<Rightarrow> nat mat4" where
  "M n = (n, n, n, n)"

definition start :: "nat RiftApp" where
  "start = RiftApp_new (M 1, M 2) (- 0.03125, 0.03125) ((M 0, M 0), M 0, M 0, M 0, M 0)"

definition quarter_state :: "nat RiftApp" where
  "quarter_state = RiftApp_new (M 1, M 2) (- 0.125, 0.125) ((M 0, M 0), M 0, M 0, M 0, M 0)"

text \<open>
  Frames: a controller state with the poses \<open>M 0\<close>; a press of a button followed by its
  release; the right thumbstick pushed right, and pushed left.
\<close>

definition at_rest :: "ovrInputState \<Rightarrow> nat frame_input" where
  "at_rest i = (Some i, (M 0, M 0))"

definition tap :: "32 word \<Rightarrow> nat frame_input list" where
  "tap b = [(Some (press b), (M 0, M 0)), (Some idle, (M 0, M 0))]"

definition push_right :: "nat frame_input" where
  "push_right = at_rest (thumb 0 1)"

definition pull_right :: "nat frame_input" where
  "pull_right = at_rest (thumb 0 (- 1))"

text \<open>
  Runs: buttons A, then A and B, then B, a failed poll, then X, with no release in
  between; the right index trigger, then the right hand trigger as well, then the hand
  trigger alone; B and X pressed together and B held on.
\<close>

definition ex_buttons :: "nat frame_input list" where
  "ex_buttons = [at_rest (press ovrButton_A), at_rest (press (ovrButton_A OR ovrButton_B)),
     at_rest (press ovrButton_B), (None, (M 0, M 0)), at_rest (press ovrButton_X)]"

definition ex_triggers :: "nat frame_input list" where
  "ex_triggers = [at_rest (squeeze 0 0.5 0 0), at_rest (squeeze 0 0.5 0 0.5),
     at_rest (squeeze 0 0 0 0.5)]"

definition hold_B :: "nat frame_input list" where
  "hold_B = [at_rest (press (ovrButton_B OR ovrButton_X)), at_rest (press ovrButton_B),
     (None, (M 0, M 0))]"

text \<open>
  States reached from \<open>start\<close>: after four taps of A (swapped eyes), after one (left
  view in both eyes), after three taps of B (poses fully frozen). \<open>lag2_frames\<close> are
  a frame at rest and then two squeezes of the right hand trigger, which raise the
  rendering lag to 2; \<open>six_frames\<close> are six frames at rest with the poses \<open>M 10\<close>,
  \<open>M 20\<close> up to \<open>M 15\<close>, \<open>M 25\<close>.
\<close>

definition swapped_state :: "nat RiftApp" where
  "swapped_state = run start (tap ovrButton_A @ tap ovrButton_A @ tap ovrButton_A @ tap ovrButton_A)"

definition mono_state :: "nat RiftApp" where
  "mono_state = run start (tap ovrButton_A)"

definition frozen_state :: "nat RiftApp" where
  "frozen_state = run start (tap ovrButton_B @ tap ovrButton_B @ tap ovrButton_B)"

definition lag2_frames :: "nat frame_input list" where
  "lag2_frames = [at_rest idle, at_rest (squeeze 0 0 0 0.5), at_rest idle,
     at_rest (squeeze 0 0 0 0.5)]"

definition six_frames :: "nat frame_input list" where
  "six_frames = map (\<lambda>n. (Some idle, (M (10 + n), M (20 + n)))) [0..<6]"

text \<open>
  Thirty calls of \<open>renderScene\<close> pushing 1 to 30, the first twenty-nine with lag 0, the
  last with the given lag.
\<close>

definition thirty_calls :: "int \<Rightarrow> (nat \<times> int) list" where
  "thirty_calls lag = map (\<lambda>n. (n, if n = 30 then lag else 0)) [1..<31]"

section \<open>Unfolding\<close>

text \<open>The definitions a concrete run is evaluated with.\<close>

lemmas ex_defs = start_def quarter_state_def RiftApp_new_def press_def idle_def squeeze_def thumb_def
  M_def tap_def at_rest_def push_right_def pull_right_def ex_buttons_def ex_triggers_def
  hold_B_def swapped_state_def mono_state_def frozen_state_def lag2_frames_def six_frames_def
  ovrButton_A_def ovrButton_B_def ovrButton_X_def ovrButton_Y_def

lemmas count_defs = buttons_down_def triggers_down_def mode_changes_def lag_changes_def

lemmas step_defs = frame_def frame_calls_def update_def update_input_def update_triggers_def
  release_touch_def triggers_released_def dec_tracking_lag_def inc_tracking_lag_def
  dec_render_lag_def inc_render_lag_def update_set_iod_def update_set_Cubesize_def
  logical_and_def ovrButton_RThumb_def ovrButton_LThumb_def update_buttons_def
  release_press_def press_buttons_def change_iod_def update_count_def draw_def
  freeze_decision_def stabilize_def dispatch_def eye_calls_def at_eye_def Let_def

section \<open>Rounding\<close>

text \<open>
  Rounding to the nearest integer is off by at most a half and never crosses an integer;
  rounding to \<open>p\<close> significant bits is off by at most half an \<open>ulp\<close>, is odd in its
  argument, and never crosses a number of the form \<open>m / 2 ^ q\<close> with \<open>m < 2 ^ p\<close>,
  which has \<open>p\<close> significant bits. \<open>round_to_binade\<close> computes it for a number between
  \<open>1 / 2 ^ Suc k\<close> and \<open>1 / 2 ^ k\<close>.
\<close>

lemma round_even_error: "\<bar>of_int (round_even y) - y\<bar> \<le> 1 / 2"
  unfolding round_even_def Let_def by (auto simp add: abs_le_iff)

lemma round_even_le: "y \<le> of_int n \<Longrightarrow> round_even y \<le> n"
  unfolding round_even_def Let_def
  by (auto simp add: floor_le_iff)

lemma round_even_ge: "of_int n \<le> y \<Longrightarrow> n \<le> round_even y"
proof -
  assume "of_int n \<le> y"
  then have "n \<le> \<lfloor>y\<rfloor>" by (simp add: le_floor_iff)
  then show ?thesis unfolding round_even_def Let_def by auto
qed


lemma exponent_bounds:
  assumes "x \<noteq> 0"
  shows "2 powr of_int (exponent x) \<le> \<bar>x\<bar>" and "\<bar>x\<bar> < 2 powr (of_int (exponent x) + 1)"
proof -
  have p: "0 < \<bar>x\<bar>" using assms by simp
  have "2 powr of_int (exponent x) \<le> 2 powr log 2 \<bar>x\<bar>"
    unfolding exponent_def by (rule powr_mono) simp_all
  then show "2 powr of_int (exponent x) \<le> \<bar>x\<bar>" using p by simp
  have "2 powr log 2 \<bar>x\<bar> < 2 powr (of_int (exponent x) + 1)"
    unfolding exponent_def by (rule powr_less_mono) simp_all
  then show "\<bar>x\<bar> < 2 powr (of_int (exponent x) + 1)" using p by simp
qed

lemma exponent_eq:
  assumes "2 powr of_int e \<le> \<bar>x\<bar>" and "\<bar>x\<bar> < 2 powr (of_int e + 1)"
  shows "exponent x = e"
proof -
  have "0 < (2::real) powr of_int e" by simp
  with assms(1) have p: "0 < \<bar>x\<bar>" by linarith
  have "of_int e \<le> log 2 \<bar>x\<bar>" using assms(1) p by (simp add: le_log_iff)
  moreover have "log 2 \<bar>x\<bar> < of_int e + 1" using assms(2) p by (simp add: log_less_iff)
  ultimately show ?thesis unfolding exponent_def by (rule floor_unique)
qed

lemma ulp_pos: "0 < ulp p x"
  by (simp add: ulp_def)

lemma round_to_error: "\<bar>round_to p x - x\<bar> \<le> ulp p x / 2"
proof (cases "x = 0")
  case True
  then show ?thesis using ulp_pos [of p x] by (simp add: round_to_def)
next
  case False
  define u where "u = ulp p x"
  have u: "0 < u" by (simp add: u_def ulp_pos)
  have "round_to p x - x = (of_int (round_even (x / u)) - x / u) * u"
    using False u by (simp add: round_to_def u_def [symmetric] algebra_simps)
  then have "\<bar>round_to p x - x\<bar> = \<bar>of_int (round_even (x / u)) - x / u\<bar> * u"
    using u by (simp add: abs_mult)
  also have "\<dots> \<le> (1 / 2) * u"
    using round_even_error [of "x / u"] u by (intro mult_right_mono) simp_all
  finally show ?thesis by (simp add: u_def)
qed

lemma pow2_neg: "(2::real) powr (- real n) = 1 / 2 ^ n"
  by (simp add: powr_minus_divide powr_realpow)

lemma ulp_le:
  assumes "x \<noteq> 0" and "\<bar>x\<bar> < 2 powr of_int E"
  shows "ulp p x \<le> 2 powr (of_int E - real p)"
proof -
  have "(2::real) powr of_int (exponent x) < 2 powr of_int E"
    using exponent_bounds(1) [OF assms(1)] assms(2) by linarith
  then have "exponent x < E" by simp
  then have "of_int (exponent x) - (real p - 1) \<le> of_int E - real p"
    by simp
  then show ?thesis unfolding ulp_def by (intro powr_mono) simp_all
qed

lemma to_double_error:
  assumes "\<bar>x\<bar> < 1 / 2"
  shows "\<bar>to_double x - x\<bar> \<le> 1 / 2 ^ 55"
proof (cases "x = 0")
  case True
  then show ?thesis by (simp add: to_double_def round_to_def)
next
  case False
  have "(2::real) powr of_int (- 1) = 1 / 2" by (simp add: powr_minus_divide)
  with assms have "\<bar>x\<bar> < 2 powr of_int (- 1)" by simp
  from ulp_le [OF False this, of 53]
  have "ulp 53 x \<le> 2 powr (- real (54::nat))" by simp
  also have "\<dots> = 1 / 2 ^ 54" by (rule pow2_neg)
  finally have "ulp 53 x / 2 \<le> 1 / 2 ^ 55" by simp
  with round_to_error [of 53 x] show ?thesis unfolding to_double_def by linarith
qed

lemma round_to_binade:
  assumes "1 / 2 ^ Suc k \<le> \<bar>x\<bar>" and "\<bar>x\<bar> < 1 / 2 ^ k"
  shows "round_to p x = of_int (round_even (x * 2 ^ (k + p))) / 2 ^ (k + p)"
proof -
  have "real_of_int (- int (Suc k)) = - real (Suc k)" by simp
  then have a: "(2::real) powr of_int (- int (Suc k)) = 1 / 2 ^ Suc k"
    by (simp only: pow2_neg)
  have "real_of_int (- int (Suc k)) + 1 = - real k" by simp
  then have b: "(2::real) powr (of_int (- int (Suc k)) + 1) = 1 / 2 ^ k"
    by (simp only: pow2_neg)
  have e: "exponent x = - int (Suc k)"
    by (rule exponent_eq) (simp_all only: a b assms)
  have "ulp p x = 2 powr (- real (k + p))"
    unfolding ulp_def e by (rule arg_cong [where f = "\<lambda>t. 2 powr t"]) simp
  also have "\<dots> = 1 / 2 ^ (k + p)" by (rule pow2_neg)
  finally have u: "ulp p x = 1 / 2 ^ (k + p)" .
  have "(0::real) < 1 / 2 ^ Suc k" by simp
  from this assms(1) have "0 < \<bar>x\<bar>" by (rule less_le_trans)
  then have "x \<noteq> 0" by simp
  then show ?thesis by (simp add: round_to_def u)
qed


lemma round_to_le:
  assumes "0 < x" and "x \<le> of_int m / 2 ^ q" and "m < 2 ^ p"
  shows "round_to p x \<le> of_int m / 2 ^ q"
proof -
  define e where "e = exponent x"
  define u where "u = ulp p x"
  have x0: "x \<noteq> 0" using assms(1) by simp
  have u: "0 < u" by (simp add: u_def ulp_pos)
  have "2 powr of_int e \<le> x"
    using exponent_bounds(1) [OF x0] assms(1) by (simp add: e_def)
  also have "x \<le> of_int m / 2 ^ q" by (rule assms(2))
  also have "of_int m / 2 ^ q < (2::real) ^ p / 2 ^ q"
  proof -
    have "real_of_int m < real_of_int (2 ^ p)" using assms(3) by (simp only: of_int_less_iff)
    then show ?thesis by (simp add: divide_strict_right_mono)
  qed
  also have "(2::real) ^ p / 2 ^ q = 2 powr (real p - real q)"
    by (simp add: powr_diff powr_realpow)
  finally have "of_int e < real p - real q" by simp
  then have "e < int p - int q" by linarith
  then obtain k :: nat where k: "int k = int p - int q - 1 - e"
    by (metis diff_ge_0_iff_ge nonneg_int_cases zle_diff1_eq)
  have "u * 2 ^ k = 2 powr (of_int e - (real p - 1)) * 2 powr real k"
    by (simp add: u_def ulp_def e_def powr_realpow)
  also have "\<dots> = 2 powr (of_int e - (real p - 1) + real k)"
    by (simp only: powr_add)
  also have "of_int e - (real p - 1) + real k = - real q"
  proof -
    have "real k = real p - real q - 1 - of_int e"
      using k by (metis of_int_diff of_int_of_nat_eq of_int_1)
    then show ?thesis by simp
  qed
  also have "2 powr (- real q) = 1 / 2 ^ q" by (rule pow2_neg)
  finally have g: "1 / 2 ^ q = u * 2 ^ k" by simp
  have "real_of_int m / 2 ^ q = of_int m * (1 / 2 ^ q)" by simp
  also have "\<dots> = of_int (m * 2 ^ k) * u" by (simp only: g) simp
  finally have r: "real_of_int m / 2 ^ q = of_int (m * 2 ^ k) * u" .
  have "x / u \<le> of_int (m * 2 ^ k)"
    using assms(2) u unfolding r by (simp add: pos_divide_le_eq)
  then have "round_even (x / u) \<le> m * 2 ^ k" by (rule round_even_le)
  then have "real_of_int (round_even (x / u)) \<le> of_int (m * 2 ^ k)"
    by (simp only: of_int_le_iff)
  then have "of_int (round_even (x / u)) * u \<le> of_int (m * 2 ^ k) * u"
    using u by (simp only: mult_le_cancel_right_pos)
  then show ?thesis using x0 by (simp only: round_to_def u_def [symmetric] r if_False)
qed


lemma round_even_minus: "round_even (- y) = - round_even y"
proof (cases "y = of_int \<lfloor>y\<rfloor>")
  case True
  then obtain n where n: "y = of_int n" ..
  have "- y = of_int (- n)" by (simp add: n)
  then have "round_even (- y) = - n"
    unfolding round_even_def Let_def by (simp only: floor_of_int) simp
  moreover have "round_even y = n"
    unfolding round_even_def Let_def n by (simp only: floor_of_int) simp
  ultimately show ?thesis by simp
next
  case False
  define f where "f = \<lfloor>y\<rfloor>"
  have lo: "of_int f < y" using False of_int_floor_le [of y] unfolding f_def by linarith
  have hi: "y < of_int f + 1" by (simp add: f_def)
  have m: "\<lfloor>- y\<rfloor> = - f - 1"
    by (rule floor_unique) (use lo hi in simp_all)
  show ?thesis
    unfolding round_even_def Let_def m f_def [symmetric]
    by auto
qed

lemma round_to_minus: "round_to p (- x) = - round_to p x"
  by (simp add: round_to_def ulp_def exponent_def round_even_minus)

lemma round_to_nonneg: "0 \<le> x \<Longrightarrow> 0 \<le> round_to p x"
proof -
  assume x: "0 \<le> x"
  have "real_of_int 0 \<le> x / ulp p x" using x ulp_pos [of p x] by simp
  then have "0 \<le> round_even (x / ulp p x)" by (rule round_even_ge)
  then show ?thesis using ulp_pos [of p x] by (simp add: round_to_def)
qed

lemma round_to_abs_le:
  assumes "\<bar>x\<bar> \<le> of_int m / 2 ^ q" and "m < 2 ^ p"
  shows "\<bar>round_to p x\<bar> \<le> of_int m / 2 ^ q"
proof -
  consider "0 < x" | "x < 0" | "x = 0" by linarith
  then show ?thesis
  proof cases
    case 1
    then have "x \<le> of_int m / 2 ^ q" using assms(1) by simp
    from round_to_le [OF 1 this assms(2)] round_to_nonneg [of x p] 1
    show ?thesis by simp
  next
    case 2
    then have p: "0 < - x" and "- x \<le> of_int m / 2 ^ q" using assms(1) by simp_all
    from round_to_le [OF this assms(2)] round_to_nonneg [of "- x" p] 2
    show ?thesis by (simp add: round_to_minus)
  next
    case 3
    then show ?thesis using assms(1) by (simp add: round_to_def)
  qed
qed

text \<open>The two literals, the start distances, and one rounded step.\<close>

lemma double_0_01: "to_double 0.01 = 5764607523034235 / 2 ^ 59"
  unfolding to_double_def
  by (subst round_to_binade [of 6]) (simp_all add: round_even_def)

lemma double_0_3: "to_double 0.3 = 5404319552844595 / 2 ^ 54"
  unfolding to_double_def
  by (subst round_to_binade [of 1]) (simp_all add: round_even_def)

lemma float_sixteenth: "to_float (- 0.03125 - 0.03125) = - 0.0625"
proof -
  have "to_float (- 0.03125 - 0.03125) = - round_to 24 (1 / 16)"
    unfolding to_float_def round_to_minus [symmetric] by simp
  also have "round_to 24 (1 / 16) = 1 / 16"
    by (subst round_to_binade [of 3]) (simp_all add: round_even_def)
  finally show ?thesis by simp
qed

lemma float_quarter: "to_float (- 0.125 - 0.125) = - 0.25"
proof -
  have "to_float (- 0.125 - 0.125) = - round_to 24 (1 / 4)"
    unfolding to_float_def round_to_minus [symmetric] by simp
  also have "round_to 24 (1 / 4) = 1 / 4"
    by (subst round_to_binade [of 1]) (simp_all add: round_even_def)
  finally show ?thesis by simp
qed

lemma iod_start: "iod start = 0.0625" "iod_origin start = 0.0625"
  by (simp_all only: start_def RiftApp_new_def prod.case fst_conv snd_conv float_sixteenth
      RiftApp.simps) simp_all

lemma iod_quarter_state: "iod quarter_state = 0.25" "iod_origin quarter_state = 0.25"
  by (simp_all only: quarter_state_def RiftApp_new_def prod.case fst_conv snd_conv float_quarter
      RiftApp.simps) simp_all

section \<open>What each statement leaves unchanged\<close>

lemma release_touch_keeps [simp]:
  "button_A (release_touch i g) = button_A g"
  "button_B (release_touch i g) = button_B g"
  "button_X (release_touch i g) = button_X g"
  "isPressed (release_touch i g) = isPressed g"
  "set_Cubesize (release_touch i g) = set_Cubesize g"
  "tracking_lag (release_touch i g) = tracking_lag g"
  "render_lag (release_touch i g) = render_lag g"
  "superRotation (release_touch i g) = superRotation g"
  "eyeProjections (release_touch i g) = eyeProjections g"
  "projection_old (release_touch i g) = projection_old g"
  "left_pos_old (release_touch i g) = left_pos_old g"
  "left_pos_new (release_touch i g) = left_pos_new g"
  "right_pos_old (release_touch i g) = right_pos_old g"
  "right_pos_new (release_touch i g) = right_pos_new g"
  "iod (release_touch i g) = iod g"
  "iod_origin (release_touch i g) = iod_origin g"
  "hmdToEyePose_x (release_touch i g) = hmdToEyePose_x g"
  "set_iod (release_touch i g) = set_iod g"
  "count (release_touch i g) = count g"
  by (simp_all add: release_touch_def)

lemma dec_tracking_lag_keeps [simp]:
  "button_A (dec_tracking_lag i g) = button_A g"
  "button_B (dec_tracking_lag i g) = button_B g"
  "button_X (dec_tracking_lag i g) = button_X g"
  "isPressed (dec_tracking_lag i g) = isPressed g"
  "set_Cubesize (dec_tracking_lag i g) = set_Cubesize g"
  "render_lag (dec_tracking_lag i g) = render_lag g"
  "superRotation (dec_tracking_lag i g) = superRotation g"
  "eyeProjections (dec_tracking_lag i g) = eyeProjections g"
  "projection_old (dec_tracking_lag i g) = projection_old g"
  "left_pos_old (dec_tracking_lag i g) = left_pos_old g"
  "left_pos_new (dec_tracking_lag i g) = left_pos_new g"
  "right_pos_old (dec_tracking_lag i g) = right_pos_old g"
  "right_pos_new (dec_tracking_lag i g) = right_pos_new g"
  "iod (dec_tracking_lag i g) = iod g"
  "iod_origin (dec_tracking_lag i g) = iod_origin g"
  "hmdToEyePose_x (dec_tracking_lag i g) = hmdToEyePose_x g"
  "set_iod (dec_tracking_lag i g) = set_iod g"
  "count (dec_tracking_lag i g) = count g"
  by (simp_all add: dec_tracking_lag_def)

lemma inc_tracking_lag_keeps [simp]:
  "button_A (inc_tracking_lag i g) = button_A g"
  "button_B (inc_tracking_lag i g) = button_B g"
  "button_X (inc_tracking_lag i g) = button_X g"
  "isPressed (inc_tracking_lag i g) = isPressed g"
  "set_Cubesize (inc_tracking_lag i g) = set_Cubesize g"
  "render_lag (inc_tracking_lag i g) = render_lag g"
  "superRotation (inc_tracking_lag i g) = superRotation g"
  "eyeProjections (inc_tracking_lag i g) = eyeProjections g"
  "projection_old (inc_tracking_lag i g) = projection_old g"
  "left_pos_old (inc_tracking_lag i g) = left_pos_old g"
  "left_pos_new (inc_tracking_lag i g) = left_pos_new g"
  "right_pos_old (inc_tracking_lag i g) = right_pos_old g"
  "right_pos_new (inc_tracking_lag i g) = right_pos_new g"
  "iod (inc_tracking_lag i g) = iod g"
  "iod_origin (inc_tracking_lag i g) = iod_origin g"
  "hmdToEyePose_x (inc_tracking_lag i g) = hmdToEyePose_x g"
  "set_iod (inc_tracking_lag i g) = set_iod g"
  "count (inc_tracking_lag i g) = count g"
  by (simp_all add: inc_tracking_lag_def)

lemma dec_render_lag_keeps [simp]:
  "button_A (dec_render_lag i g) = button_A g"
  "button_B (dec_render_lag i g) = button_B g"
  "button_X (dec_render_lag i g) = button_X g"
  "isPressed (dec_render_lag i g) = isPressed g"
  "set_Cubesize (dec_render_lag i g) = set_Cubesize g"
  "tracking_lag (dec_render_lag i g) = tracking_lag g"
  "superRotation (dec_render_lag i g) = superRotation g"
  "eyeProjections (dec_render_lag i g) = eyeProjections g"
  "projection_old (dec_render_lag i g) = projection_old g"
  "left_pos_old (dec_render_lag i g) = left_pos_old g"
  "left_pos_new (dec_render_lag i g) = left_pos_new g"
  "right_pos_old (dec_render_lag i g) = right_pos_old g"
  "right_pos_new (dec_render_lag i g) = right_pos_new g"
  "iod (dec_render_lag i g) = iod g"
  "iod_origin (dec_render_lag i g) = iod_origin g"
  "hmdToEyePose_x (dec_render_lag i g) = hmdToEyePose_x g"
  "set_iod (dec_render_lag i g) = set_iod g"
  "count (dec_render_lag i g) = count g"
  by (simp_all add: dec_render_lag_def)

lemma inc_render_lag_keeps [simp]:
  "button_A (inc_render_lag i g) = button_A g"
  "button_B (inc_render_lag i g) = button_B g"
  "button_X (inc_render_lag i g) = button_X g"
  "isPressed (inc_render_lag i g) = isPressed g"
  "set_Cubesize (inc_render_lag i g) = set_Cubesize g"
  "tracking_lag (inc_render_lag i g) = tracking_lag g"
  "superRotation (inc_render_lag i g) = superRotation g"
  "eyeProjections (inc_render_lag i g) = eyeProjections g"
  "projection_old (inc_render_lag i g) = projection_old g"
  "left_pos_old (inc_render_lag i g) = left_pos_old g"
  "left_pos_new (inc_render_lag i g) = left_pos_new g"
  "right_pos_old (inc_render_lag i g) = right_pos_old g"
  "right_pos_new (inc_render_lag i g) = right_pos_new g"
  "iod (inc_render_lag i g) = iod g"
  "iod_origin (inc_render_lag i g) = iod_origin g"
  "hmdToEyePose_x (inc_render_lag i g) = hmdToEyePose_x g"
  "set_iod (inc_render_lag i g) = set_iod g"
  "count (inc_render_lag i g) = count g"
  by (simp_all add: inc_render_lag_def)

lemma update_triggers_keeps [simp]:
  "button_A (update_triggers i g) = button_A g"
  "button_B (update_triggers i g) = button_B g"
  "button_X (update_triggers i g) = button_X g"
  "isPressed (update_triggers i g) = isPressed g"
  "set_Cubesize (update_triggers i g) = set_Cubesize g"
  "superRotation (update_triggers i g) = superRotation g"
  "eyeProjections (update_triggers i g) = eyeProjections g"
  "projection_old (update_triggers i g) = projection_old g"
  "left_pos_old (update_triggers i g) = left_pos_old g"
  "left_pos_new (update_triggers i g) = left_pos_new g"
  "right_pos_old (update_triggers i g) = right_pos_old g"
  "right_pos_new (update_triggers i g) = right_pos_new g"
  "iod (update_triggers i g) = iod g"
  "iod_origin (update_triggers i g) = iod_origin g"
  "hmdToEyePose_x (update_triggers i g) = hmdToEyePose_x g"
  "set_iod (update_triggers i g) = set_iod g"
  "count (update_triggers i g) = count g"
  by (simp_all add: update_triggers_def)

lemma update_set_iod_keeps [simp]:
  "button_A (update_set_iod i g) = button_A g"
  "button_B (update_set_iod i g) = button_B g"
  "button_X (update_set_iod i g) = button_X g"
  "isPressed (update_set_iod i g) = isPressed g"
  "isTouched (update_set_iod i g) = isTouched g"
  "set_Cubesize (update_set_iod i g) = set_Cubesize g"
  "tracking_lag (update_set_iod i g) = tracking_lag g"
  "render_lag (update_set_iod i g) = render_lag g"
  "superRotation (update_set_iod i g) = superRotation g"
  "eyeProjections (update_set_iod i g) = eyeProjections g"
  "projection_old (update_set_iod i g) = projection_old g"
  "left_pos_old (update_set_iod i g) = left_pos_old g"
  "left_pos_new (update_set_iod i g) = left_pos_new g"
  "right_pos_old (update_set_iod i g) = right_pos_old g"
  "right_pos_new (update_set_iod i g) = right_pos_new g"
  "iod (update_set_iod i g) = iod g"
  "iod_origin (update_set_iod i g) = iod_origin g"
  "hmdToEyePose_x (update_set_iod i g) = hmdToEyePose_x g"
  "count (update_set_iod i g) = count g"
  by (simp_all add: update_set_iod_def)

lemma update_set_Cubesize_keeps [simp]:
  "button_A (update_set_Cubesize i g) = button_A g"
  "button_B (update_set_Cubesize i g) = button_B g"
  "button_X (update_set_Cubesize i g) = button_X g"
  "isPressed (update_set_Cubesize i g) = isPressed g"
  "isTouched (update_set_Cubesize i g) = isTouched g"
  "tracking_lag (update_set_Cubesize i g) = tracking_lag g"
  "render_lag (update_set_Cubesize i g) = render_lag g"
  "superRotation (update_set_Cubesize i g) = superRotation g"
  "eyeProjections (update_set_Cubesize i g) = eyeProjections g"
  "projection_old (update_set_Cubesize i g) = projection_old g"
  "left_pos_old (update_set_Cubesize i g) = left_pos_old g"
  "left_pos_new (update_set_Cubesize i g) = left_pos_new g"
  "right_pos_old (update_set_Cubesize i g) = right_pos_old g"
  "right_pos_new (update_set_Cubesize i g) = right_pos_new g"
  "iod (update_set_Cubesize i g) = iod g"
  "iod_origin (update_set_Cubesize i g) = iod_origin g"
  "hmdToEyePose_x (update_set_Cubesize i g) = hmdToEyePose_x g"
  "set_iod (update_set_Cubesize i g) = set_iod g"
  "count (update_set_Cubesize i g) = count g"
  by (simp_all add: update_set_Cubesize_def Let_def)

lemma release_press_keeps [simp]:
  "button_A (release_press i g) = button_A g"
  "button_B (release_press i g) = button_B g"
  "button_X (release_press i g) = button_X g"
  "isTouched (release_press i g) = isTouched g"
  "set_Cubesize (release_press i g) = set_Cubesize g"
  "tracking_lag (release_press i g) = tracking_lag g"
  "render_lag (release_press i g) = render_lag g"
  "superRotation (release_press i g) = superRotation g"
  "eyeProjections (release_press i g) = eyeProjections g"
  "projection_old (release_press i g) = projection_old g"
  "left_pos_old (release_press i g) = left_pos_old g"
  "left_pos_new (release_press i g) = left_pos_new g"
  "right_pos_old (release_press i g) = right_pos_old g"
  "right_pos_new (release_press i g) = right_pos_new g"
  "iod (release_press i g) = iod g"
  "iod_origin (release_press i g) = iod_origin g"
  "hmdToEyePose_x (release_press i g) = hmdToEyePose_x g"
  "set_iod (release_press i g) = set_iod g"
  "count (release_press i g) = count g"
  by (simp_all add: release_press_def)

lemma press_buttons_keeps [simp]:
  "isTouched (press_buttons i g) = isTouched g"
  "set_Cubesize (press_buttons i g) = set_Cubesize g"
  "tracking_lag (press_buttons i g) = tracking_lag g"
  "render_lag (press_buttons i g) = render_lag g"
  "eyeProjections (press_buttons i g) = eyeProjections g"
  "projection_old (press_buttons i g) = projection_old g"
  "left_pos_old (press_buttons i g) = left_pos_old g"
  "left_pos_new (press_buttons i g) = left_pos_new g"
  "right_pos_old (press_buttons i g) = right_pos_old g"
  "right_pos_new (press_buttons i g) = right_pos_new g"
  "iod (press_buttons i g) = iod g"
  "iod_origin (press_buttons i g) = iod_origin g"
  "hmdToEyePose_x (press_buttons i g) = hmdToEyePose_x g"
  "set_iod (press_buttons i g) = set_iod g"
  "count (press_buttons i g) = count g"
  by (simp_all add: press_buttons_def)

lemma update_buttons_keeps [simp]:
  "isTouched (update_buttons i g) = isTouched g"
  "set_Cubesize (update_buttons i g) = set_Cubesize g"
  "tracking_lag (update_buttons i g) = tracking_lag g"
  "render_lag (update_buttons i g) = render_lag g"
  "eyeProjections (update_buttons i g) = eyeProjections g"
  "projection_old (update_buttons i g) = projection_old g"
  "left_pos_old (update_buttons i g) = left_pos_old g"
  "left_pos_new (update_buttons i g) = left_pos_new g"
  "right_pos_old (update_buttons i g) = right_pos_old g"
  "right_pos_new (update_buttons i g) = right_pos_new g"
  "iod (update_buttons i g) = iod g"
  "iod_origin (update_buttons i g) = iod_origin g"
  "hmdToEyePose_x (update_buttons i g) = hmdToEyePose_x g"
  "set_iod (update_buttons i g) = set_iod g"
  "count (update_buttons i g) = count g"
  by (simp_all add: update_buttons_def)

lemma update_input_keeps [simp]:
  "eyeProjections (update_input i g) = eyeProjections g"
  "projection_old (update_input i g) = projection_old g"
  "left_pos_old (update_input i g) = left_pos_old g"
  "left_pos_new (update_input i g) = left_pos_new g"
  "right_pos_old (update_input i g) = right_pos_old g"
  "right_pos_new (update_input i g) = right_pos_new g"
  "iod (update_input i g) = iod g"
  "iod_origin (update_input i g) = iod_origin g"
  "hmdToEyePose_x (update_input i g) = hmdToEyePose_x g"
  "count (update_input i g) = count g"
  by (simp_all add: update_input_def)

lemma change_iod_keeps [simp]:
  "button_A (change_iod g) = button_A g"
  "button_B (change_iod g) = button_B g"
  "button_X (change_iod g) = button_X g"
  "isPressed (change_iod g) = isPressed g"
  "isTouched (change_iod g) = isTouched g"
  "set_Cubesize (change_iod g) = set_Cubesize g"
  "tracking_lag (change_iod g) = tracking_lag g"
  "render_lag (change_iod g) = render_lag g"
  "superRotation (change_iod g) = superRotation g"
  "eyeProjections (change_iod g) = eyeProjections g"
  "projection_old (change_iod g) = projection_old g"
  "left_pos_old (change_iod g) = left_pos_old g"
  "left_pos_new (change_iod g) = left_pos_new g"
  "right_pos_old (change_iod g) = right_pos_old g"
  "right_pos_new (change_iod g) = right_pos_new g"
  "iod_origin (change_iod g) = iod_origin g"
  "count (change_iod g) = count g"
  by (simp_all add: change_iod_def Let_def)

lemma update_count_keeps [simp]:
  "button_A (update_count g) = button_A g"
  "button_B (update_count g) = button_B g"
  "button_X (update_count g) = button_X g"
  "isPressed (update_count g) = isPressed g"
  "isTouched (update_count g) = isTouched g"
  "set_Cubesize (update_count g) = set_Cubesize g"
  "tracking_lag (update_count g) = tracking_lag g"
  "render_lag (update_count g) = render_lag g"
  "superRotation (update_count g) = superRotation g"
  "eyeProjections (update_count g) = eyeProjections g"
  "projection_old (update_count g) = projection_old g"
  "left_pos_old (update_count g) = left_pos_old g"
  "left_pos_new (update_count g) = left_pos_new g"
  "right_pos_old (update_count g) = right_pos_old g"
  "right_pos_new (update_count g) = right_pos_new g"
  "iod (update_count g) = iod g"
  "iod_origin (update_count g) = iod_origin g"
  "hmdToEyePose_x (update_count g) = hmdToEyePose_x g"
  "set_iod (update_count g) = set_iod g"
  by (simp_all add: update_count_def)

lemma freeze_decision_keeps [simp]:
  "button_A (freeze_decision p g) = button_A g"
  "button_B (freeze_decision p g) = button_B g"
  "button_X (freeze_decision p g) = button_X g"
  "isPressed (freeze_decision p g) = isPressed g"
  "isTouched (freeze_decision p g) = isTouched g"
  "set_Cubesize (freeze_decision p g) = set_Cubesize g"
  "tracking_lag (freeze_decision p g) = tracking_lag g"
  "render_lag (freeze_decision p g) = render_lag g"
  "superRotation (freeze_decision p g) = superRotation g"
  "left_pos_old (freeze_decision p g) = left_pos_old g"
  "right_pos_old (freeze_decision p g) = right_pos_old g"
  "iod (freeze_decision p g) = iod g"
  "iod_origin (freeze_decision p g) = iod_origin g"
  "hmdToEyePose_x (freeze_decision p g) = hmdToEyePose_x g"
  "set_iod (freeze_decision p g) = set_iod g"
  "count (freeze_decision p g) = count g"
  by (simp_all add: freeze_decision_def)

lemma stabilize_keeps [simp]:
  "button_A (stabilize g) = button_A g"
  "button_B (stabilize g) = button_B g"
  "button_X (stabilize g) = button_X g"
  "isPressed (stabilize g) = isPressed g"
  "isTouched (stabilize g) = isTouched g"
  "set_Cubesize (stabilize g) = set_Cubesize g"
  "tracking_lag (stabilize g) = tracking_lag g"
  "render_lag (stabilize g) = render_lag g"
  "superRotation (stabilize g) = superRotation g"
  "eyeProjections (stabilize g) = eyeProjections g"
  "projection_old (stabilize g) = projection_old g"
  "left_pos_old (stabilize g) = left_pos_old g"
  "right_pos_old (stabilize g) = right_pos_old g"
  "iod (stabilize g) = iod g"
  "iod_origin (stabilize g) = iod_origin g"
  "hmdToEyePose_x (stabilize g) = hmdToEyePose_x g"
  "set_iod (stabilize g) = set_iod g"
  "count (stabilize g) = count g"
  by (simp_all add: stabilize_def)

lemma draw_keeps [simp]:
  "button_A (snd (draw g p)) = button_A g"
  "button_B (snd (draw g p)) = button_B g"
  "button_X (snd (draw g p)) = button_X g"
  "superRotation (snd (draw g p)) = superRotation g"
  "isPressed (snd (draw g p)) = isPressed g"
  "isTouched (snd (draw g p)) = isTouched g"
  "tracking_lag (snd (draw g p)) = tracking_lag g"
  "render_lag (snd (draw g p)) = render_lag g"
  "set_Cubesize (snd (draw g p)) = set_Cubesize g"
  "iod (snd (draw g p)) = iod g"
  "iod_origin (snd (draw g p)) = iod_origin g"
  "hmdToEyePose_x (snd (draw g p)) = hmdToEyePose_x g"
  "set_iod (snd (draw g p)) = set_iod g"
  "count (snd (draw g p)) = count g"
  by (simp_all add: draw_def Let_def)

lemma update_keeps [simp]:
  "eyeProjections (update x g) = eyeProjections g"
  "projection_old (update x g) = projection_old g"
  "left_pos_old (update x g) = left_pos_old g"
  "left_pos_new (update x g) = left_pos_new g"
  "right_pos_old (update x g) = right_pos_old g"
  "right_pos_new (update x g) = right_pos_new g"
  "iod_origin (update x g) = iod_origin g"
  by (simp_all add: update_def split: option.splits)

lemma frame_fields:
  "count (frame g f) = count (update (fst f) g)"
  "render_lag (frame g f) = render_lag (update (fst f) g)"
  "button_B (frame g f) = button_B (update (fst f) g)"
  "button_A (frame g f) = button_A (update (fst f) g)"
  by (simp_all add: frame_def)

section \<open>The render-target layout\<close>

text \<open>
  Claim C7: when both eyes report a texture size of 100 by 100, the constructor leaves a
  render target of 200 by 100, the left viewport at (0, 0) and the right viewport at
  (100, 0), each 100 by 100.
\<close>

theorem layout_100:
  assumes "eyeSize ovrEye_Left = (100, 100)" "eyeSize ovrEye_Right = (100, 100)"
  shows "renderTargetSize (RiftApp_layout eyeSize) = (200, 100)
    \<and> Viewport (RiftApp_layout eyeSize) ovrEye_Left = ((0, 0), (100, 100))
    \<and> Viewport (RiftApp_layout eyeSize) ovrEye_Right = ((100, 0), (100, 100))"
  using assms
  by (simp add: RiftApp_layout_def for_each_eye_def layout_eye_def uvec2_default_def Let_def)

theorem layout_100_witness:
  "renderTargetSize (RiftApp_layout (\<lambda>eye. (100, 100))) = (200, 100)
    \<and> Viewport (RiftApp_layout (\<lambda>eye. (100, 100))) ovrEye_Left = ((0, 0), (100, 100))
    \<and> Viewport (RiftApp_layout (\<lambda>eye. (100, 100))) ovrEye_Right = ((100, 0), (100, 100))"
  using layout_100 [of "\<lambda>eye. (100, 100)"] by simp

section \<open>The ring buffer\<close>

subsection \<open>Before it is full\<close>

lemma c_rem_nonneg: "0 \<le> a \<Longrightarrow> 0 < b \<Longrightarrow> c_rem a b = a mod b"
  by (cases "a = 0") (simp_all add: c_rem_def)

text \<open>
  While fewer than thirty values have been pushed the write cursor equals the count, no
  pop fails or moves anything, and slot 0 holds the first value pushed.
\<close>

lemma exec_not_full:
  assumes "buf_write b = buf_num b" "0 \<le> buf_num b"
    "buf_num b + int (length (pushed ops)) < 30" "length (positions b) = 30"
  shows "\<exists>b'. exec b ops = Some b' \<and> buf_num b' = buf_num b + int (length (pushed ops))
    \<and> length (positions b') = 30
    \<and> positions b' ! 0 =
        (if buf_num b = 0 then (case pushed ops of [] \<Rightarrow> positions b ! 0 | v # _ \<Rightarrow> v)
         else positions b ! 0)"
  using assms
proof (induction ops arbitrary: b)
  case Nil
  then show ?case by simp
next
  case (Cons op ops)
  show ?case
  proof (cases op)
    case (Push v)
    let ?b = "push b v"
    have w: "buf_write ?b = buf_num ?b" "0 \<le> buf_num ?b" "buf_num ?b = buf_num b + 1"
      "length (positions ?b) = 30"
      using Cons.prems Push by (simp_all add: push_def c_rem_nonneg)
    have p0: "positions ?b ! 0 = (if buf_num b = 0 then v else positions b ! 0)"
      using Cons.prems by (auto simp add: push_def nat_eq_iff)
    have "buf_num ?b + int (length (pushed ops)) < 30"
      using Cons.prems Push w by simp
    from Cons.IH [OF w(1) w(2) this w(4)] obtain b' where
      b': "exec ?b ops = Some b'" "buf_num b' = buf_num ?b + int (length (pushed ops))"
        "length (positions b') = 30"
        "positions b' ! 0 =
          (if buf_num ?b = 0 then (case pushed ops of [] \<Rightarrow> positions ?b ! 0 | v # _ \<Rightarrow> v)
           else positions ?b ! 0)"
      by blast
    have "buf_num ?b \<noteq> 0" using w Cons.prems by simp
    with b' p0 Push w show ?thesis by simp
  next
    case (Pop lag)
    have "pop b lag = Some (positions b ! 0, b)"
      using Cons.prems by (simp add: pop_def)
    moreover have "buf_num b + int (length (pushed ops)) < 30"
      using Cons.prems Pop by simp
    ultimately show ?thesis
      using Cons.IH [OF Cons.prems(1) Cons.prems(2) _ Cons.prems(4)] Pop by auto
  qed
qed

text \<open>
  Claim C5: after any sequence of pushes and pops on a new buffer in which a first value
  \<open>v\<close> has been pushed and fewer than thirty values have been pushed in all, every
  call succeeded, and a pop returns \<open>v\<close> whatever its lag, leaving the buffer as it is.
  The array has thirty slots, as declared.
\<close>

theorem pop_before_full:
  assumes "length mem = 30" "pushed ops = v # vs" "length (pushed ops) < 30"
  shows "\<exists>b. exec (Buffer_new mem) ops = Some b \<and> pop b lag = Some (v, b)"
proof -
  let ?b0 = "Buffer_new mem"
  have "\<exists>b'. exec ?b0 ops = Some b' \<and> buf_num b' = buf_num ?b0 + int (length (pushed ops))
    \<and> length (positions b') = 30
    \<and> positions b' ! 0 =
        (if buf_num ?b0 = 0 then (case pushed ops of [] \<Rightarrow> positions ?b0 ! 0 | v # _ \<Rightarrow> v)
         else positions ?b0 ! 0)"
    using assms by (intro exec_not_full) (simp_all add: Buffer_new_def)
  then obtain b where b: "exec ?b0 ops = Some b" "buf_num b = int (length (pushed ops))"
    "length (positions b) = 30" "positions b ! 0 = v"
    using assms by (auto simp add: Buffer_new_def)
  have "pop b lag = Some (v, b)"
    using b assms by (simp add: pop_def)
  with b show ?thesis by blast
qed

theorem pop_before_full_witness:
  "\<exists>b. exec (Buffer_new (replicate 30 (0::nat))) [Push 7, Pop 3, Push 8, Pop 0] = Some b
     \<and> pop b 29 = Some (7, b)"
  using pop_before_full [of "replicate 30 (0::nat)" "[Push 7, Pop 3, Push 8, Pop 0]" 7 "[8]" 29]
  by simp

subsection \<open>Once it is full\<close>

lemma c_rem_int: "c_rem (int n) 30 = int (n mod 30)"
  by (simp add: c_rem_nonneg zmod_int)

lemma ring_inv_new: "length mem = 30 \<Longrightarrow> ring_inv [] (Buffer_new mem)"
  by (simp add: ring_inv_def Buffer_new_def)

lemma mod_distinct:
  fixes j k :: nat
  assumes "j < k" "k < j + 30"
  shows "j mod 30 \<noteq> k mod 30"
proof
  assume "j mod 30 = k mod 30"
  then have "(k - j) mod 30 = 0" using assms(1)
    by (metis mod_eq_dvd_iff_nat less_imp_le_nat mod_0_imp_dvd dvd_imp_mod_0 nat_less_le)
  moreover have "0 < k - j" "k - j < 30" using assms by simp_all
  ultimately show False by simp
qed

lemma ring_inv_push:
  assumes "ring_inv vs b"
  shows "length (positions (push b v)) = 30"
    and "buf_write (push b v) = int (length (vs @ [v]) mod 30)"
    and "buf_num (push b v) = int (min (length (vs @ [v])) 30)"
    and "buf_read (push b v) = buf_read b"
    and "\<forall>j<length (vs @ [v]). length (vs @ [v]) \<le> j + 30 \<longrightarrow>
           positions (push b v) ! (j mod 30) = (vs @ [v]) ! j"
proof -
  let ?k = "length vs"
  have len: "length (positions b) = 30" and w: "buf_write b = int (?k mod 30)"
    and n: "buf_num b = int (min ?k 30)"
    and old: "\<And>j. j < ?k \<Longrightarrow> ?k \<le> j + 30 \<Longrightarrow> positions b ! (j mod 30) = vs ! j"
    using assms by (simp_all add: ring_inv_def)
  show "length (positions (push b v)) = 30" using len by (simp add: push_def)
  have "int (?k mod 30) + 1 = int (?k mod 30 + 1)" by simp
  then have "c_rem (buf_write b + 1) 30 = int ((?k mod 30 + 1) mod 30)"
    unfolding w by (simp only: c_rem_int)
  also have "(?k mod 30 + 1) mod 30 = (?k + 1) mod 30" by (simp add: mod_Suc_eq)
  finally show "buf_write (push b v) = int (length (vs @ [v]) mod 30)"
    by (simp add: push_def)
  show "buf_num (push b v) = int (min (length (vs @ [v])) 30)"
    using n by (simp add: push_def min_def)
  show "buf_read (push b v) = buf_read b" by (simp add: push_def)
  show "\<forall>j<length (vs @ [v]). length (vs @ [v]) \<le> j + 30 \<longrightarrow>
           positions (push b v) ! (j mod 30) = (vs @ [v]) ! j"
  proof (intro allI impI)
    fix j
    assume j: "j < length (vs @ [v])" "length (vs @ [v]) \<le> j + 30"
    have p: "positions (push b v) = (positions b)[?k mod 30 := v]"
      using w by (simp add: push_def)
    show "positions (push b v) ! (j mod 30) = (vs @ [v]) ! j"
    proof (cases "j = ?k")
      case True
      then show ?thesis using len by (simp add: p)
    next
      case False
      with j have jk: "j < ?k" "?k < j + 30" by simp_all
      then have "j mod 30 \<noteq> ?k mod 30" by (rule mod_distinct)
      then have "positions (push b v) ! (j mod 30) = positions b ! (j mod 30)"
        by (simp add: p)
      also have "\<dots> = vs ! j" using jk by (intro old) simp_all
      finally show ?thesis using jk by (simp add: nth_append)
    qed
  qed
qed

lemma shift:
  fixes a l :: nat
  assumes "30 \<le> a" "l \<le> 30"
  shows "(a mod 30 + 30 - l) mod 30 = (a - l) mod 30"
proof -
  have "int ((a mod 30 + 30 - l) mod 30) = (int a mod 30 + 30 - int l) mod 30"
    using assms by (simp add: zmod_int of_nat_diff)
  also have "\<dots> = (int a mod 30 - int l) mod 30"
    by (metis add_diff_eq diff_add_eq mod_add_self2)
  also have "\<dots> = (int a - int l) mod 30"
    by (simp add: mod_diff_left_eq)
  also have "\<dots> = int ((a - l) mod 30)"
    using assms by (simp add: zmod_int of_nat_diff)
  finally show ?thesis by simp
qed

lemma pop_index:
  fixes k l :: nat
  assumes "29 \<le> k" "l \<le> 29"
  shows "((k + 1) mod 30 + 30 - l) mod 30 = (k - (l + 29) mod 30) mod 30"
proof (cases "l = 0")
  case True
  have "k + 1 = (k - 29) + 30" using assms by simp
  then have "(k + 1) mod 30 = (k - 29) mod 30" by (metis mod_add_self2)
  with True show ?thesis by simp
next
  case False
  then have "l + 29 = (l - 1) + 30" by simp
  then have "(l + 29) mod 30 = (l - 1) mod 30" by (metis mod_add_self2)
  also have "\<dots> = l - 1" using assms by simp
  finally have d: "(l + 29) mod 30 = l - 1" .
  have "k - (l - 1) = (k + 1) - l" using False assms by simp
  with shift [of "k + 1" l] assms d show ?thesis by simp
qed

lemma push_pop_step:
  assumes inv: "ring_inv vs b" and lag: "0 \<le> lag" "lag \<le> 29"
  shows "\<exists>x b'. pop (push b v) lag = Some (x, b') \<and> ring_inv (vs @ [v]) b'
    \<and> (29 \<le> length vs \<longrightarrow> x = (vs @ [v]) ! (length vs - delay lag))"
proof -
  let ?k = "length vs" and ?b = "push b v"
  note P = ring_inv_push [OF inv, of v]
  have rd: "buf_read b = (if ?k < 30 then 0 else int ((?k - 29) mod 30))"
    using inv by (simp add: ring_inv_def)
  show ?thesis
  proof (cases "29 \<le> ?k")
    case False
    then have "buf_num ?b \<noteq> 30" using P(3) by simp
    then have "pop ?b lag = Some (positions ?b ! 0, ?b)"
      using P(1) by (simp add: pop_def)
    moreover have "ring_inv (vs @ [v]) ?b"
      using P rd False by (simp add: ring_inv_def)
    ultimately show ?thesis using False by simp
  next
    case True
    define l where "l = nat lag"
    have l: "lag = int l" "l \<le> 29" using lag by (simp_all add: l_def)
    have full: "buf_num ?b = 30" using P(3) True by simp
    have r: "buf_read ?b = int ((?k + 1) mod 30)"
    proof (cases "?k < 30")
      case True
      with \<open>29 \<le> ?k\<close> have "?k = 29" by simp
      then show ?thesis using rd P(4) by simp
    next
      case False
      then have "?k + 1 = (?k - 29) + 30" by simp
      then have "(?k - 29) mod 30 = (?k + 1) mod 30" by (metis mod_add_self2)
      then show ?thesis using rd P(4) False by simp
    qed
    have "buf_read ?b - lag + 30 = int ((?k + 1) mod 30 + 30 - l)"
      using l r by simp
    then have i: "c_rem (buf_read ?b - lag + 30) 30 = int (((?k + 1) mod 30 + 30 - l) mod 30)"
      by (simp only: c_rem_int)
    have d: "delay lag = (l + 29) mod 30"
      using l by (simp add: delay_def nat_mod_distrib nat_add_distrib)
    have idx: "((?k + 1) mod 30 + 30 - l) mod 30 = (?k - delay lag) mod 30"
      unfolding d using pop_index [OF True l(2)] .
    have i': "c_rem (buf_read ?b - lag + 30) 30 = int ((?k - delay lag) mod 30)"
      by (simp only: i idx)
    define b' where "b' = ?b\<lparr>buf_read := c_rem (buf_read ?b + 1) 30\<rparr>"
    have pop: "pop ?b lag = Some (positions ?b ! ((?k - delay lag) mod 30), b')"
      using full P(1) by (simp add: pop_def i' b'_def Let_def)
    have dl: "delay lag \<le> 29" unfolding d by simp
    have "positions ?b ! ((?k - delay lag) mod 30) = (vs @ [v]) ! (?k - delay lag)"
      using P(5) dl True by simp
    moreover have "ring_inv (vs @ [v]) b'"
    proof -
      have "buf_read ?b + 1 = int ((?k + 1) mod 30 + 1)" using r by simp
      then have "c_rem (buf_read ?b + 1) 30 = int (((?k + 1) mod 30 + 1) mod 30)"
        by (simp only: c_rem_int)
      also have "((?k + 1) mod 30 + 1) mod 30 = (?k + 1 - 29) mod 30"
      proof -
        have "?k + 1 + 1 = (?k + 1 - 29) + 30" using True by simp
        then have "(?k + 1 + 1) mod 30 = (?k + 1 - 29) mod 30" by (metis mod_add_self2)
        then show ?thesis by (simp add: mod_Suc_eq)
      qed
      finally have "buf_read b' = int ((length (vs @ [v]) - 29) mod 30)"
        by (simp add: b'_def)
      then show ?thesis using P True by (simp add: ring_inv_def b'_def)
    qed
    ultimately show ?thesis using pop by simp
  qed
qed

lemma render_pops_nth:
  assumes "ring_inv vs b" "list_all (\<lambda>c. 0 \<le> snd c \<and> snd c \<le> 29) calls"
    "n < length calls" "29 \<le> length vs + n"
  shows "render_pops b calls ! n =
    Some ((vs @ map fst calls) ! (length vs + n - delay (snd (calls ! n))))"
  using assms
proof (induction calls arbitrary: vs b n)
  case Nil
  then show ?case by simp
next
  case (Cons c calls)
  obtain v lag where c: "c = (v, lag)" by (cases c)
  have lag: "0 \<le> lag" "lag \<le> 29" and rest: "list_all (\<lambda>c. 0 \<le> snd c \<and> snd c \<le> 29) calls"
    using Cons.prems(2) c by simp_all
  from push_pop_step [OF Cons.prems(1) lag, of v] obtain x b' where
    step: "pop (push b v) lag = Some (x, b')" "ring_inv (vs @ [v]) b'"
      "29 \<le> length vs \<longrightarrow> x = (vs @ [v]) ! (length vs - delay lag)"
    by blast
  show ?case
  proof (cases n)
    case 0
    with Cons.prems(4) step(3) have "x = (vs @ [v]) ! (length vs - delay lag)" by simp
    also have "\<dots> = (vs @ map fst (c # calls)) ! (length vs - delay lag)"
      by (simp add: c nth_append)
    finally show ?thesis using 0 step(1) by (simp add: c)
  next
    case (Suc m)
    with Cons.prems have m: "m < length calls" "29 \<le> length (vs @ [v]) + m" by simp_all
    from Cons.IH [OF step(2) rest m] Suc step(1) show ?thesis by (simp add: c)
  qed
qed

lemma thirty_calls_eval:
  "length (thirty_calls lag) = 30"
  "thirty_calls lag ! 29 = (30, lag)"
  "thirty_calls lag ! 0 = (1, 0)"
  "thirty_calls lag ! Suc 0 = (2, 0)"
  by (simp_all add: thirty_calls_def)

lemma thirty_calls_lags:
  "0 \<le> lag \<Longrightarrow> lag \<le> 29 \<Longrightarrow> list_all (\<lambda>c. 0 \<le> snd c \<and> snd c \<le> 29) (thirty_calls lag)"
  by (simp add: thirty_calls_def list_all_iff)

text \<open>
  Claim C3 says that, once thirty values have been pushed, a pop with lag 0 right after
  a push returns the value just pushed, and a pop with lag 29 the value pushed 29 pushes
  earlier. The code does neither. In the use \<open>renderScene\<close> makes of the buffer (every
  push followed by one pop, lags in 0..29), from the thirtieth call on the pop returns
  the value pushed \<open>(lag + 29) mod 30\<close> calls earlier: with lag 0 the oldest value in
  the buffer, 29 calls back; with lag 29 the value 28 calls back; the value just pushed
  only with lag 1.
\<close>

theorem ring_pop_delay:
  assumes "length mem = 30" "list_all (\<lambda>c. 0 \<le> snd c \<and> snd c \<le> 29) calls"
    "n < length calls" "29 \<le> n"
  shows "render_pops (Buffer_new mem) calls ! n =
    Some (fst (calls ! (n - delay (snd (calls ! n)))))"
proof -
  from render_pops_nth [OF ring_inv_new [OF assms(1)] assms(2) assms(3)] assms(4)
  have "render_pops (Buffer_new mem) calls ! n =
      Some (map fst calls ! (n - delay (snd (calls ! n))))"
    by simp
  then show ?thesis using assms(3) by simp
qed

text \<open>
  At the thirtieth call, the values 1 to 30 having been pushed: lag 0 returns 1, not 30;
  lag 29 returns 2, not 1; lag 1 returns 30.
\<close>

theorem ring_lag_off_by_one:
  "render_pops (Buffer_new (replicate 30 0)) (thirty_calls 0) ! 29 = Some 1
   \<and> render_pops (Buffer_new (replicate 30 0)) (thirty_calls 29) ! 29 = Some 2
   \<and> render_pops (Buffer_new (replicate 30 0)) (thirty_calls 1) ! 29 = Some 30"
proof -
  have m: "length (replicate 30 (0::nat)) = 30" by simp
  have n: "29 < length (thirty_calls lag)" for lag by (simp add: thirty_calls_eval)
  from ring_pop_delay [OF m thirty_calls_lags n, of 0]
  have a: "render_pops (Buffer_new (replicate 30 0)) (thirty_calls 0) ! 29 = Some 1"
    by (simp add: thirty_calls_eval delay_def)
  from ring_pop_delay [OF m thirty_calls_lags n, of 29]
  have b: "render_pops (Buffer_new (replicate 30 0)) (thirty_calls 29) ! 29 = Some 2"
    by (simp add: thirty_calls_eval delay_def)
  from ring_pop_delay [OF m thirty_calls_lags n, of 1]
  have c: "render_pops (Buffer_new (replicate 30 0)) (thirty_calls 1) ! 29 = Some 30"
    by (simp add: thirty_calls_eval delay_def)
  from a b c show ?thesis by blast
qed

section \<open>The lag counters\<close>

lemma update_triggers_range:
  assumes "0 \<le> tracking_lag g \<and> tracking_lag g \<le> 29 \<and> 0 \<le> render_lag g \<and> render_lag g \<le> 10"
  shows "0 \<le> tracking_lag (update_triggers i g) \<and> tracking_lag (update_triggers i g) \<le> 29
    \<and> 0 \<le> render_lag (update_triggers i g) \<and> render_lag (update_triggers i g) \<le> 10"
  using assms
  by (simp add: update_triggers_def inc_render_lag_def dec_render_lag_def inc_tracking_lag_def
      dec_tracking_lag_def release_touch_def)

lemma update_lags:
  "tracking_lag (update x g) =
     (case x of None \<Rightarrow> tracking_lag g | Some i \<Rightarrow> tracking_lag (update_triggers i g))"
  "render_lag (update x g) =
     (case x of None \<Rightarrow> render_lag g | Some i \<Rightarrow> render_lag (update_triggers i g))"
  by (simp_all add: update_def update_input_def split: option.splits)

lemma frame_range:
  assumes "0 \<le> tracking_lag g \<and> tracking_lag g \<le> 29 \<and> 0 \<le> render_lag g \<and> render_lag g \<le> 10"
  shows "0 \<le> tracking_lag (frame g f) \<and> tracking_lag (frame g f) \<le> 29
    \<and> 0 \<le> render_lag (frame g f) \<and> render_lag (frame g f) \<le> 10"
  using assms update_triggers_range [OF assms]
  by (simp add: frame_def update_lags split: option.splits)

lemma run_range:
  assumes "0 \<le> tracking_lag g \<and> tracking_lag g \<le> 29 \<and> 0 \<le> render_lag g \<and> render_lag g \<le> 10"
  shows "0 \<le> tracking_lag (run g fs) \<and> tracking_lag (run g fs) \<le> 29
    \<and> 0 \<le> render_lag (run g fs) \<and> render_lag (run g fs) \<le> 10"
  using assms
proof (induction fs arbitrary: g)
  case Nil
  then show ?case by simp
next
  case (Cons f fs)
  from frame_range [OF Cons.prems] show ?case
    by (simp add: Cons.IH)
qed

text \<open>
  Claim C8: from the start state, after any sequence of frames (any controller inputs,
  failed polls included, and any eye poses) the tracking lag is in 0..29 and the
  rendering lag in 0..10. The step lemma \<open>update_triggers_range\<close> is where the guards
  \<open>> 0\<close>, \<open>< 29\<close> and \<open>< 10\<close> of the four adjustments are used.
\<close>

theorem lag_counters_in_range:
  "0 \<le> tracking_lag (run (RiftApp_new projs xs mem) fs)
   \<and> tracking_lag (run (RiftApp_new projs xs mem) fs) \<le> 29
   \<and> 0 \<le> render_lag (run (RiftApp_new projs xs mem) fs)
   \<and> render_lag (run (RiftApp_new projs xs mem) fs) \<le> 10"
  by (rule run_range) (simp add: RiftApp_new_def split: prod.splits)

section \<open>The thumbstick clicks\<close>

lemma set_iod_reset:
  assumes "Buttons i \<noteq> 0" "Thumbstick_x i ovrHand_Right = 0"
  shows "set_iod (update_input i g) = 4"
  using assms
  by (simp add: update_input_def update_set_iod_def logical_and_def ovrButton_RThumb_def)

lemma set_Cubesize_reset:
  assumes "Buttons i \<noteq> 0" "Thumbstick_x i ovrHand_Left = 0"
  shows "set_Cubesize (update_input i g) = 4"
  using assms
  by (simp add: update_input_def update_set_Cubesize_def logical_and_def ovrButton_LThumb_def
      Let_def)

lemma change_iod_reset: "set_iod g = 4 \<Longrightarrow> iod (change_iod g) = iod_origin g"
  by (simp add: change_iod_def)

text \<open>
  Claim C9: in a frame whose controller state has any button bit set, from any state
  (whatever the pressed latch holds, so on every frame of a hold): if the right
  thumbstick's x is 0 the interocular-distance mode becomes 4 (reset) and the distance
  ends the frame equal to the recorded original; if the left thumbstick's x is 0 the
  cube-size mode ends the frame as 4 (reset), and \<open>Scene::render\<close> then sets the cube
  scale back to 0.1 whatever it was.
\<close>

theorem any_button_resets:
  assumes "Buttons i \<noteq> 0"
  shows "(Thumbstick_x i ovrHand_Right = 0 \<longrightarrow>
            set_iod (update_input i g) = 4 \<and> iod (frame g (Some i, p)) = iod_origin g)
       \<and> (Thumbstick_x i ovrHand_Left = 0 \<longrightarrow>
            set_Cubesize (frame g (Some i, p)) = 4
            \<and> render_cubeSize (set_Cubesize (frame g (Some i, p))) c = 0.1)"
  using assms
  by (simp add: frame_def update_def set_iod_reset set_Cubesize_reset change_iod_reset
      render_cubeSize_def)

theorem any_button_resets_witness:
  "Buttons (press ovrButton_A) \<noteq> 0
   \<and> Thumbstick_x (press ovrButton_A) ovrHand_Right = 0
   \<and> Thumbstick_x (press ovrButton_A) ovrHand_Left = 0
   \<and> set_iod (update_input (press ovrButton_A) (start\<lparr>iod := 0.25, isPressed := True\<rparr>)) = 4
   \<and> iod (frame (start\<lparr>iod := 0.25, isPressed := True\<rparr>) (Some (press ovrButton_A), (M 5, M 6)))
       = 0.0625
   \<and> set_Cubesize (frame (start\<lparr>iod := 0.25, isPressed := True\<rparr>)
        (Some (press ovrButton_A), (M 5, M 6))) = 4
   \<and> render_cubeSize (set_Cubesize (frame (start\<lparr>iod := 0.25, isPressed := True\<rparr>)
        (Some (press ovrButton_A), (M 5, M 6)))) 0.3 = 0.1"
proof -
  let ?i = "press ovrButton_A" and ?g = "start\<lparr>iod := 0.25, isPressed := True\<rparr>"
  have b: "Buttons ?i \<noteq> 0"
    by (simp add: press_def idle_def ovrButton_A_def)
  have r: "Thumbstick_x ?i ovrHand_Right = 0" and l: "Thumbstick_x ?i ovrHand_Left = 0"
    by (simp_all add: press_def idle_def)
  have o: "iod_origin ?g = 0.0625"
    by (simp add: iod_start)
  from any_button_resets [OF b, of ?g "(M 5, M 6)" "0.3"] r l
  have "set_iod (update_input ?i ?g) = 4
    \<and> iod (frame ?g (Some ?i, (M 5, M 6))) = iod_origin ?g
    \<and> set_Cubesize (frame ?g (Some ?i, (M 5, M 6))) = 4
    \<and> render_cubeSize (set_Cubesize (frame ?g (Some ?i, (M 5, M 6)))) 0.3 = 0.1"
    by blast
  then show ?thesis using b r l unfolding o by blast
qed

section \<open>The stereo eye mapping\<close>

text \<open>
  Claim C2, as amended: with \<open>button_A\<close> = 5 (swapped) \<open>draw\<close> makes two calls, the
  right eye's projection and pose with \<open>isLeft\<close> false into the left viewport, then the
  left eye's projection and pose with \<open>isLeft\<close> true into the right viewport. With
  \<open>button_A\<close> = 2 (left view in both eyes) it makes two calls with the left pose and
  \<open>isLeft\<close> true, each with the projection of the eye whose viewport it draws into.
  The projections and poses are those \<open>draw\<close> leaves in the state.
\<close>

theorem stereo_mapping:
  "(button_A g = 5 \<longrightarrow> fst (draw g p) =
      [(ovrEye_Left, snd (eyeProjections (snd (draw g p))), right_pos_new (snd (draw g p)), False),
       (ovrEye_Right, fst (eyeProjections (snd (draw g p))), left_pos_new (snd (draw g p)), True)])
   \<and> (button_A g = 2 \<longrightarrow> fst (draw g p) =
      [(ovrEye_Left, fst (eyeProjections (snd (draw g p))), left_pos_new (snd (draw g p)), True),
       (ovrEye_Right, snd (eyeProjections (snd (draw g p))), left_pos_new (snd (draw g p)), True)])"
  by (simp add: draw_def Let_def dispatch_def eye_calls_def at_eye_def)

theorem stereo_mapping_witness:
  "button_A swapped_state = 5
   \<and> fst (draw swapped_state (M 5, M 6)) =
       [(ovrEye_Left, M 2, M 6, False), (ovrEye_Right, M 1, M 5, True)]
   \<and> button_A mono_state = 2
   \<and> fst (draw mono_state (M 5, M 6)) =
       [(ovrEye_Left, M 1, M 5, True), (ovrEye_Right, M 2, M 5, True)]"
  using stereo_mapping [of swapped_state "(M 5, M 6)"] stereo_mapping [of mono_state "(M 5, M 6)"]
  by (simp add: ex_defs step_defs)

text \<open>
  In the frame in which A is first pressed the mode becomes 2, and the call into the
  right viewport carries the right projection \<open>M 2\<close>, not the left projection \<open>M 1\<close>.
\<close>

theorem mono_left_counterexample:
  "frame_calls start (Some (press ovrButton_A), (M 5, M 6)) =
     [(ovrEye_Left, M 1, M 5, True), (ovrEye_Right, M 2, M 5, True)] \<and> M 2 \<noteq> M 1"
  by (simp add: ex_defs step_defs)

section \<open>The two latches\<close>

lemma update_buttons_latched:
  assumes "isPressed g" "Buttons i \<noteq> 0"
  shows "update_buttons i g = g"
  using assms by (simp add: update_buttons_def press_buttons_def release_press_def)

lemma update_buttons_once:
  "mode_changes g (update_buttons i g) \<le> 1
   \<and> (mode_changes g (update_buttons i g) = 1 \<longrightarrow> isPressed (update_buttons i g))"
  by (simp add: update_buttons_def press_buttons_def release_press_def mode_changes_def)

lemma update_buttons_cong:
  assumes "isPressed g' = isPressed g" "button_A g' = button_A g" "button_B g' = button_B g"
    "button_X g' = button_X g" "superRotation g' = superRotation g"
  shows "isPressed (update_buttons i g') = isPressed (update_buttons i g)"
    "button_A (update_buttons i g') = button_A (update_buttons i g)"
    "button_B (update_buttons i g') = button_B (update_buttons i g)"
    "button_X (update_buttons i g') = button_X (update_buttons i g)"
    "superRotation (update_buttons i g') = superRotation (update_buttons i g)"
  using assms by (simp_all add: update_buttons_def press_buttons_def release_press_def)

lemma frame_buttons:
  shows "isPressed (frame g (Some i, p)) = isPressed (update_buttons i g)"
    and "button_A (frame g (Some i, p)) = button_A (update_buttons i g)"
    and "button_B (frame g (Some i, p)) = button_B (update_buttons i g)"
    and "button_X (frame g (Some i, p)) = button_X (update_buttons i g)"
    and "superRotation (frame g (Some i, p)) = superRotation (update_buttons i g)"
proof -
  let ?g = "update_set_Cubesize i (update_set_iod i (update_triggers i g))"
  have eq: "isPressed ?g = isPressed g" "button_A ?g = button_A g" "button_B ?g = button_B g"
    "button_X ?g = button_X g" "superRotation ?g = superRotation g"
    by simp_all
  note c = update_buttons_cong [OF eq, of i]
  show "isPressed (frame g (Some i, p)) = isPressed (update_buttons i g)"
    using c(1) by (simp add: frame_def update_def update_input_def)
  show "button_A (frame g (Some i, p)) = button_A (update_buttons i g)"
    using c(2) by (simp add: frame_def update_def update_input_def)
  show "button_B (frame g (Some i, p)) = button_B (update_buttons i g)"
    using c(3) by (simp add: frame_def update_def update_input_def)
  show "button_X (frame g (Some i, p)) = button_X (update_buttons i g)"
    using c(4) by (simp add: frame_def update_def update_input_def)
  show "superRotation (frame g (Some i, p)) = superRotation (update_buttons i g)"
    using c(5) by (simp add: frame_def update_def update_input_def)
qed

lemma frame_None_buttons:
  "isPressed (frame g (None, p)) = isPressed g"
  "button_A (frame g (None, p)) = button_A g"
  "button_B (frame g (None, p)) = button_B g"
  "button_X (frame g (None, p)) = button_X g"
  "superRotation (frame g (None, p)) = superRotation g"
  by (simp_all add: frame_def update_def)

lemma mode_changes_Some:
  "mode_changes g (frame g (Some i, p)) = mode_changes g (update_buttons i g)"
  by (simp add: mode_changes_def frame_buttons)

lemma mode_changes_None: "mode_changes g (frame g (None, p)) = 0"
  by (simp add: mode_changes_def frame_None_buttons)

lemma frame_latched:
  assumes "isPressed g" "buttons_down f"
  shows "mode_changes g (frame g f) = 0 \<and> isPressed (frame g f)"
proof -
  obtain x p where Pair: "f = (x, p)" by (cases f) auto
  show ?thesis
  proof (cases x)
    case None
    with Pair assms show ?thesis by (simp add: mode_changes_None frame_None_buttons)
  next
    case (Some i)
    with Pair assms have "update_buttons i g = g"
      by (simp add: buttons_down_def update_buttons_latched)
    with Pair Some assms show ?thesis
      by (simp add: mode_changes_Some frame_buttons mode_changes_def)
  qed
qed

lemma frame_once:
  "mode_changes g (frame g f) = 0
   \<or> mode_changes g (frame g f) = 1 \<and> isPressed (frame g f)"
proof -
  obtain x p where Pair: "f = (x, p)" by (cases f) auto
  show ?thesis
  proof (cases x)
    case None
    with Pair show ?thesis by (simp add: mode_changes_None)
  next
    case (Some i)
    from update_buttons_once [of g i]
    have "mode_changes g (update_buttons i g) = 0
      \<or> mode_changes g (update_buttons i g) = 1 \<and> isPressed (update_buttons i g)"
      by linarith
    with Pair Some show ?thesis
      by (simp add: mode_changes_Some frame_buttons)
  qed
qed

lemma total_trace_Cons:
  "total d (trace g (f # fs)) = d g (frame g f) + total d (trace (frame g f) fs)"
  by (cases fs) simp_all

lemma total_latched:
  assumes latched: "\<And>g f. P f \<Longrightarrow> L g \<Longrightarrow> d g (frame g f) = 0 \<and> L (frame g f)"
    and once: "\<And>g f. d g (frame g f) = 0 \<or> d g (frame g f) = 1 \<and> L (frame g f)"
    and "list_all P fs"
  shows "total d (trace g fs) \<le> (if L g then 0 else 1)"
  using assms(3)
proof (induction fs arbitrary: g)
  case Nil
  then show ?case by simp
next
  case (Cons f fs)
  have down: "P f" "list_all P fs" using Cons.prems by simp_all
  note IH = Cons.IH [OF down(2), of "frame g f"]
  show ?case
  proof (cases "L g")
    case True
    from latched [OF down(1) True] IH have
      "d g (frame g f) + total d (trace (frame g f) fs) = 0"
      by simp
    with True show ?thesis unfolding total_trace_Cons by simp
  next
    case False
    from once [of g f] IH have
      "d g (frame g f) + total d (trace (frame g f) fs) \<le> 1"
      by (auto split: if_splits)
    with False show ?thesis unfolding total_trace_Cons by simp
  qed
qed

lemma update_triggers_latched:
  assumes "isTouched g" "\<not> triggers_released i"
  shows "update_triggers i g = g"
  using assms
  by (simp add: update_triggers_def inc_render_lag_def dec_render_lag_def inc_tracking_lag_def
      dec_tracking_lag_def release_touch_def)

lemma update_triggers_once:
  "lag_changes g (update_triggers i g) = 0
   \<or> lag_changes g (update_triggers i g) = 1 \<and> isTouched (update_triggers i g)"
  by (simp add: update_triggers_def inc_render_lag_def dec_render_lag_def inc_tracking_lag_def
      dec_tracking_lag_def release_touch_def lag_changes_def)

lemma frame_triggers:
  "isTouched (frame g (Some i, p)) = isTouched (update_triggers i g)"
  "tracking_lag (frame g (Some i, p)) = tracking_lag (update_triggers i g)"
  "render_lag (frame g (Some i, p)) = render_lag (update_triggers i g)"
  "isTouched (frame g (None, p)) = isTouched g"
  "tracking_lag (frame g (None, p)) = tracking_lag g"
  "render_lag (frame g (None, p)) = render_lag g"
  by (simp_all add: frame_def update_def update_input_def)

lemma frame_touch_latched:
  assumes "triggers_down f" "isTouched g"
  shows "lag_changes g (frame g f) = 0 \<and> isTouched (frame g f)"
proof -
  obtain x p where f: "f = (x, p)" by (cases f) auto
  show ?thesis
  proof (cases x)
    case None
    with f assms show ?thesis by (simp add: lag_changes_def frame_triggers)
  next
    case (Some i)
    with f assms have "update_triggers i g = g"
      by (simp add: triggers_down_def update_triggers_latched)
    with f Some assms show ?thesis
      by (simp add: lag_changes_def frame_triggers)
  qed
qed

lemma frame_touch_once:
  "lag_changes g (frame g f) = 0 \<or> lag_changes g (frame g f) = 1 \<and> isTouched (frame g f)"
proof -
  obtain x p where f: "f = (x, p)" by (cases f) auto
  show ?thesis
  proof (cases x)
    case None
    with f show ?thesis by (simp add: lag_changes_def frame_triggers)
  next
    case (Some i)
    with f update_triggers_once [of g i] show ?thesis
      by (simp add: lag_changes_def frame_triggers)
  qed
qed

text \<open>
  Claim C10: over any run of frames none of which polls a controller with no button
  down, at most one of the fields driven by A, B, X and Y changes, once; over any run
  of frames none of which polls four released triggers, at most one lag counter
  changes, once. While the pressed latch is set a frame with a button down changes no
  mode field, and while the touched latch is set a frame with a trigger not released
  changes no lag counter.
\<close>

theorem shared_latches:
  "(list_all buttons_down fs \<longrightarrow> total mode_changes (trace g fs) \<le> 1)
   \<and> (list_all triggers_down fs \<longrightarrow> total lag_changes (trace g fs) \<le> 1)
   \<and> (isPressed g \<and> buttons_down f \<longrightarrow> mode_changes g (frame g f) = 0)
   \<and> (isTouched g \<and> triggers_down f \<longrightarrow> lag_changes g (frame g f) = 0)"
proof (intro conjI impI)
  assume "list_all buttons_down fs"
  from total_latched [of buttons_down isPressed mode_changes, OF _ _ this, of g]
    frame_latched frame_once
  have "total mode_changes (trace g fs) \<le> (if isPressed g then 0 else 1)"
    by blast
  then show "total mode_changes (trace g fs) \<le> 1" by (simp split: if_splits)
next
  assume "list_all triggers_down fs"
  from total_latched [of triggers_down isTouched lag_changes, OF _ _ this, of g]
    frame_touch_latched frame_touch_once
  have "total lag_changes (trace g fs) \<le> (if isTouched g then 0 else 1)"
    by blast
  then show "total lag_changes (trace g fs) \<le> 1" by (simp split: if_splits)
next
  assume "isPressed g \<and> buttons_down f"
  then show "mode_changes g (frame g f) = 0" using frame_latched by blast
next
  assume "isTouched g \<and> triggers_down f"
  then show "lag_changes g (frame g f) = 0" using frame_touch_latched by blast
qed

theorem shared_latches_witness:
  "list_all buttons_down ex_buttons
   \<and> total mode_changes (trace start ex_buttons) \<le> 1
   \<and> list_all triggers_down ex_triggers
   \<and> total lag_changes (trace start ex_triggers) \<le> 1
   \<and> isPressed (frame start (at_rest (press ovrButton_A)))
   \<and> buttons_down (at_rest (press ovrButton_B))
   \<and> mode_changes (frame start (at_rest (press ovrButton_A)))
        (frame (frame start (at_rest (press ovrButton_A))) (at_rest (press ovrButton_B))) = 0
   \<and> isTouched (frame start (at_rest (squeeze 0 0.5 0 0)))
   \<and> triggers_down (at_rest (squeeze 0 0 0 0.5))
   \<and> lag_changes (frame start (at_rest (squeeze 0 0.5 0 0)))
        (frame (frame start (at_rest (squeeze 0 0.5 0 0))) (at_rest (squeeze 0 0 0 0.5))) = 0"
proof -
  have b: "list_all buttons_down ex_buttons"
    by (simp add: ex_buttons_def at_rest_def buttons_down_def press_def idle_def
        ovrButton_A_def ovrButton_B_def ovrButton_X_def)
  have t: "list_all triggers_down ex_triggers"
    by (simp add: ex_triggers_def at_rest_def triggers_down_def triggers_released_def
        squeeze_def idle_def)
  have p: "isPressed (frame start (at_rest (press ovrButton_A)))"
    by (simp add: at_rest_def frame_buttons update_buttons_def press_buttons_def
        release_press_def press_def idle_def start_def RiftApp_new_def ovrButton_A_def)
  have b2: "buttons_down (at_rest (press ovrButton_B))"
    by (simp add: at_rest_def buttons_down_def press_def idle_def ovrButton_B_def)
  have q: "isTouched (frame start (at_rest (squeeze 0 0.5 0 0)))"
    by (simp add: at_rest_def frame_triggers update_triggers_def inc_render_lag_def
        dec_render_lag_def inc_tracking_lag_def dec_tracking_lag_def release_touch_def
        triggers_released_def squeeze_def idle_def start_def RiftApp_new_def)
  have t2: "triggers_down (at_rest (squeeze 0 0 0 0.5))"
    by (simp add: at_rest_def triggers_down_def triggers_released_def squeeze_def idle_def)
  show ?thesis
    using b t p b2 q t2
      shared_latches [of ex_buttons start "at_rest (press ovrButton_B)"]
      shared_latches [of ex_triggers start "at_rest (press ovrButton_B)"]
      shared_latches [of ex_buttons "frame start (at_rest (press ovrButton_A))" "at_rest (press ovrButton_B)"]
      shared_latches [of ex_buttons "frame start (at_rest (squeeze 0 0.5 0 0))"
        "at_rest (squeeze 0 0 0 0.5)"]
    by blast
qed

section \<open>One change per press\<close>

lemma press_changes:
  assumes "\<not> isPressed g" "down k i" "list_all (\<lambda>k'. \<not> down k' i) (earlier k)"
  shows "mode_field k (update_buttons i g) \<noteq> mode_field k g \<and> isPressed (update_buttons i g)"
  using assms
  by (cases k) (auto simp add: down_def update_buttons_def press_buttons_def release_press_def)

lemma mode_changes_0:
  "mode_changes g g' = 0 \<Longrightarrow> mode_field k g' = mode_field k g"
  by (cases k) (auto simp add: mode_changes_def split: if_splits)

lemma held_down: "held k f \<Longrightarrow> buttons_down f"
  by (auto simp add: held_def buttons_down_def down_def split: option.splits)

lemma latched_trace:
  assumes "isPressed g" "list_all buttons_down fs"
  shows "list_all (\<lambda>s. mode_field k s = mode_field k g) (trace g fs)"
  using assms
proof (induction fs arbitrary: g)
  case Nil
  then show ?case by simp
next
  case (Cons f fs)
  from Cons.prems have d: "buttons_down f" "list_all buttons_down fs" by simp_all
  from frame_latched [OF Cons.prems(1) d(1)]
  have l: "isPressed (frame g f)" and e: "mode_field k (frame g f) = mode_field k g"
    by (simp_all add: mode_changes_0)
  from Cons.IH [OF l d(2)] e show ?case by simp
qed

text \<open>
  Claim C6, as amended: if the pressed latch is clear when a frame polls a mapped button
  down, with no button earlier in the order A, B, X, Y down in that frame, the field the
  button drives changes in that frame; and over any following frames in which the button
  stays down the field keeps the value it took.
\<close>

theorem press_changes_once:
  assumes "\<not> isPressed g" "down k i" "list_all (\<lambda>k'. \<not> down k' i) (earlier k)"
    "list_all (held k) fs"
  shows "mode_field k (frame g (Some i, p)) \<noteq> mode_field k g
    \<and> list_all (\<lambda>s. mode_field k s = mode_field k (frame g (Some i, p)))
         (trace (frame g (Some i, p)) fs)"
proof -
  have eq: "mode_field k (frame g (Some i, p)) = mode_field k (update_buttons i g)"
    by (cases k) (simp_all add: frame_buttons)
  from press_changes [OF assms(1-3)] eq
  have c: "mode_field k (frame g (Some i, p)) \<noteq> mode_field k g"
    and l: "isPressed (frame g (Some i, p))"
    by (simp_all add: frame_buttons)
  have "list_all buttons_down fs"
    using assms(4) held_down by (induction fs) auto
  from latched_trace [OF l this] c show ?thesis by simp
qed

theorem press_changes_once_witness:
  "\<not> isPressed start \<and> down Button_B (press (ovrButton_B OR ovrButton_X))
   \<and> list_all (\<lambda>k'. \<not> down k' (press (ovrButton_B OR ovrButton_X))) (earlier Button_B)
   \<and> list_all (held Button_B) hold_B
   \<and> mode_field Button_B (frame start (Some (press (ovrButton_B OR ovrButton_X)), (M 0, M 0))) \<noteq> mode_field Button_B start
   \<and> list_all (\<lambda>s. mode_field Button_B s
          = mode_field Button_B (frame start (Some (press (ovrButton_B OR ovrButton_X)), (M 0, M 0))))
        (trace (frame start (Some (press (ovrButton_B OR ovrButton_X)), (M 0, M 0))) hold_B)"
proof -
  have h1: "\<not> isPressed start" by (simp add: start_def RiftApp_new_def)
  have h2: "down Button_B (press (ovrButton_B OR ovrButton_X))"
    by (simp add: down_def press_def idle_def ovrButton_B_def ovrButton_X_def)
  have h3: "list_all (\<lambda>k'. \<not> down k' (press (ovrButton_B OR ovrButton_X))) (earlier Button_B)"
    by (simp add: down_def press_def idle_def ovrButton_A_def ovrButton_B_def ovrButton_X_def)
  have h4: "list_all (held Button_B) hold_B"
    by (simp add: hold_B_def at_rest_def held_def down_def press_def idle_def ovrButton_B_def
        ovrButton_X_def)
  from press_changes_once [OF h1 h2 h3 h4, of "(M 0, M 0)"] h1 h2 h3 h4
  show ?thesis by blast
qed

text \<open>
  With B held, A goes from released to pressed and stays pressed for two frames: the
  field of A is 1 before, at and after the press.
\<close>

theorem shared_latch_counterexample:
  "\<not> down Button_A (press ovrButton_B) \<and> down Button_A (press (ovrButton_A OR ovrButton_B))
   \<and> map (mode_field Button_A)
        (trace start [at_rest (press ovrButton_B), at_rest (press (ovrButton_A OR ovrButton_B)), at_rest (press (ovrButton_A OR ovrButton_B))]) = [1, 1, 1, 1]
   \<and> map (mode_field Button_B)
        (trace start [at_rest (press ovrButton_B), at_rest (press (ovrButton_A OR ovrButton_B)), at_rest (press (ovrButton_A OR ovrButton_B))]) = [1, 2, 2, 2]"
  by (simp add: down_def ex_defs step_defs)

section \<open>The interocular distance\<close>

lemma set_iod_update_input:
  "set_iod (update_input i g) =
     (if Thumbstick_x i ovrHand_Right < 0 then 2
      else if Thumbstick_x i ovrHand_Right > 0 then 3
      else if Buttons i \<noteq> 0 then 4 else set_iod g)"
  by (simp add: update_input_def update_set_iod_def logical_and_def ovrButton_RThumb_def)

lemma iod_change_iod:
  "iod (change_iod g) =
     (if set_iod g = 3 \<and> iod g < to_double 0.3 then to_double (iod g + to_double 0.01)
      else if set_iod g = 2 \<and> iod g > - to_double 0.3 then to_double (iod g - to_double 0.01)
      else if set_iod g = 4 then iod_origin g else iod g)"
  by (simp add: change_iod_def)

lemma iod_frame:
  "iod (frame g f) =
     (case fst f of None \<Rightarrow> iod (change_iod g) | Some i \<Rightarrow> iod (change_iod (update_input i g)))"
  "iod_origin (frame g f) = iod_origin g"
  by (simp_all add: frame_def update_def split: option.splits)

lemma iod_origin_run: "iod_origin (run g fs) = iod_origin g"
  by (induction fs arbitrary: g) (simp_all add: iod_frame)

lemma iod_increase_frame:
  assumes "increase_frame f"
  shows "iod (frame g f) =
    (if iod g < to_double 0.3 then to_double (iod g + to_double 0.01) else iod g)"
  using assms
  by (auto simp add: increase_frame_def iod_frame iod_change_iod set_iod_update_input
      split: option.splits)

lemma iod_decrease_frame:
  assumes "decrease_frame f"
  shows "iod (frame g f) =
    (if iod g > - to_double 0.3 then to_double (iod g - to_double 0.01) else iod g)"
  using assms
  by (auto simp add: decrease_frame_def iod_frame iod_change_iod set_iod_update_input
      split: option.splits)

lemma iod_reset_frame:
  assumes "reset_frame f"
  shows "iod (frame g f) = iod_origin g"
  using assms
  by (auto simp add: reset_frame_def iod_frame iod_change_iod set_iod_update_input
      split: option.splits)

text \<open>
  One rounded step stays strictly inside (-0.31, 0.31): the sum lies within the
  \<open>double\<close> \<open>5584463537939415 / 2 ^ 54\<close>, the one nearest to 0.31 and below it, and
  rounding does not cross that. It differs from the exact step by at most \<open>1 / 2 ^ 54\<close>.
\<close>

lemma step_up_bound:
  assumes "- 0.31 < x" and "x < to_double 0.3"
  shows "- 0.31 < to_double (x + to_double 0.01) \<and> to_double (x + to_double 0.01) < 0.31"
proof -
  define B :: real where "B = real_of_int 5584463537939415 / 2 ^ 54"
  have B: "B < 0.31" by (simp add: B_def)
  have "x + to_double 0.01 \<le> B" and "- (x + to_double 0.01) \<le> B"
    using assms unfolding double_0_01 double_0_3 B_def by simp_all
  then have "\<bar>x + to_double 0.01\<bar> \<le> real_of_int 5584463537939415 / 2 ^ 54"
    unfolding B_def by (rule abs_leI)
  moreover have "(5584463537939415::int) < 2 ^ 53" by simp
  ultimately have "\<bar>round_to 53 (x + to_double 0.01)\<bar> \<le> real_of_int 5584463537939415 / 2 ^ 54"
    by (rule round_to_abs_le)
  then have "\<bar>to_double (x + to_double 0.01)\<bar> \<le> B"
    by (simp only: to_double_def B_def)
  with B show ?thesis by linarith
qed

lemma step_down_bound:
  assumes "- to_double 0.3 < x" and "x < 0.31"
  shows "- 0.31 < to_double (x - to_double 0.01) \<and> to_double (x - to_double 0.01) < 0.31"
proof -
  define B :: real where "B = real_of_int 5584463537939415 / 2 ^ 54"
  have B: "B < 0.31" by (simp add: B_def)
  have "x - to_double 0.01 \<le> B" and "- (x - to_double 0.01) \<le> B"
    using assms unfolding double_0_01 double_0_3 B_def by simp_all
  then have "\<bar>x - to_double 0.01\<bar> \<le> real_of_int 5584463537939415 / 2 ^ 54"
    unfolding B_def by (rule abs_leI)
  moreover have "(5584463537939415::int) < 2 ^ 53" by simp
  ultimately have "\<bar>round_to 53 (x - to_double 0.01)\<bar> \<le> real_of_int 5584463537939415 / 2 ^ 54"
    by (rule round_to_abs_le)
  then have "\<bar>to_double (x - to_double 0.01)\<bar> \<le> B"
    by (simp only: to_double_def B_def)
  with B show ?thesis by linarith
qed

lemma step_up_error:
  assumes "- 0.31 < x" and "x < 0.31"
  shows "\<bar>to_double (x + to_double 0.01) - (x + 0.01)\<bar> \<le> 1 / 2 ^ 54"
proof -
  define c where "c = to_double 0.01"
  define e :: real where "e = 1 / 2 ^ 55"
  have e: "e < 1 / 100" "e + e = 1 / 2 ^ 54" by (simp_all add: e_def)
  have c: "\<bar>c - 1 / 100\<bar> \<le> e" unfolding c_def e_def double_0_01 by simp
  have x: "- (31 / 100) < x" "x < 31 / 100" using assms by simp_all
  from c e(1) x have "\<bar>x + c\<bar> < 1 / 2" by linarith
  from to_double_error [OF this] have "\<bar>to_double (x + c) - (x + c)\<bar> \<le> e"
    by (simp only: e_def)
  with c have "\<bar>to_double (x + c) - (x + 1 / 100)\<bar> \<le> e + e" by linarith
  then show ?thesis unfolding c_def e(2) by simp
qed

lemma step_down_error:
  assumes "- 0.31 < x" and "x < 0.31"
  shows "\<bar>to_double (x - to_double 0.01) - (x - 0.01)\<bar> \<le> 1 / 2 ^ 54"
proof -
  define c where "c = to_double 0.01"
  define e :: real where "e = 1 / 2 ^ 55"
  have e: "e < 1 / 100" "e + e = 1 / 2 ^ 54" by (simp_all add: e_def)
  have c: "\<bar>c - 1 / 100\<bar> \<le> e" unfolding c_def e_def double_0_01 by simp
  have x: "- (31 / 100) < x" "x < 31 / 100" using assms by simp_all
  from c e(1) x have "\<bar>x - c\<bar> < 1 / 2" by linarith
  from to_double_error [OF this] have "\<bar>to_double (x - c) - (x - c)\<bar> \<le> e"
    by (simp only: e_def)
  with c have "\<bar>to_double (x - c) - (x - 1 / 100)\<bar> \<le> e + e" by linarith
  then show ?thesis unfolding c_def e(2) by simp
qed


lemma abs_chain_up:
  fixes r m a u v e1 e2 :: real
  assumes "\<bar>r - (m + u)\<bar> \<le> e1" and "\<bar>m - (a + v)\<bar> \<le> e2"
  shows "\<bar>r - (a + (u + v))\<bar> \<le> e1 + e2"
  using assms by linarith

lemma abs_chain_down:
  fixes r m a u v e1 e2 :: real
  assumes "\<bar>r - (m - u)\<bar> \<le> e1" and "\<bar>m - (a - v)\<bar> \<le> e2"
  shows "\<bar>r - (a - (u + v))\<bar> \<le> e1 + e2"
  using assms by linarith

lemma Suc_steps:
  "0.01 * real (Suc j) = 0.01 * real j + (0.01::real)"
  "real (Suc j) / 2 ^ 54 = real j / 2 ^ 54 + (1::real) / 2 ^ 54"
  by (simp_all add: algebra_simps add_divide_distrib)

lemma iod_stay_up:
  assumes "list_all increase_frame fs" and "to_double 0.3 \<le> iod g"
  shows "iod (run g fs) = iod g"
  using assms
proof (induction fs arbitrary: g)
  case Nil
  then show ?case by simp
next
  case (Cons f fs)
  then have f: "increase_frame f" and fs: "list_all increase_frame fs" by simp_all
  have e: "iod (frame g f) = iod g"
    using Cons.prems(2) by (simp add: iod_increase_frame [OF f])
  from Cons.IH [OF fs, of "frame g f"] e Cons.prems(2) show ?case by simp
qed

lemma iod_stay_down:
  assumes "list_all decrease_frame fs" and "iod g \<le> - to_double 0.3"
  shows "iod (run g fs) = iod g"
  using assms
proof (induction fs arbitrary: g)
  case Nil
  then show ?case by simp
next
  case (Cons f fs)
  then have f: "decrease_frame f" and fs: "list_all decrease_frame fs" by simp_all
  have e: "iod (frame g f) = iod g"
    using Cons.prems(2) by (simp add: iod_decrease_frame [OF f])
  from Cons.IH [OF fs, of "frame g f"] e Cons.prems(2) show ?case by simp
qed

lemma iod_increase_run:
  assumes "list_all increase_frame fs" and "- 0.31 < iod g" and "iod g < 0.31"
  shows "\<exists>j\<le>length fs. \<bar>iod (run g fs) - (iod g + 0.01 * real j)\<bar> \<le> real j / 2 ^ 54
           \<and> (j = length fs \<or> to_double 0.3 \<le> iod (run g fs))"
  using assms
proof (induction fs arbitrary: g)
  case Nil
  then show ?case by simp
next
  case (Cons f fs)
  then have f: "increase_frame f" and fs: "list_all increase_frame fs" by simp_all
  show ?case
  proof (cases "iod g < to_double 0.3")
    case True
    let ?g = "frame g f"
    have s: "iod ?g = to_double (iod g + to_double 0.01)"
      using True by (simp add: iod_increase_frame [OF f])
    have b: "- 0.31 < iod ?g" "iod ?g < 0.31"
      using step_up_bound [OF Cons.prems(2) True] by (simp_all only: s)
    have e: "\<bar>iod ?g - (iod g + 0.01)\<bar> \<le> 1 / 2 ^ 54"
      using step_up_error [OF Cons.prems(2,3)] by (simp only: s)
    from Cons.IH [OF fs b] obtain j where j: "j \<le> length fs"
      and d: "\<bar>iod (run ?g fs) - (iod ?g + 0.01 * real j)\<bar> \<le> real j / 2 ^ 54"
      and t: "j = length fs \<or> to_double 0.3 \<le> iod (run ?g fs)"
      by blast
    have "\<bar>iod (run ?g fs) - (iod g + 0.01 * real (Suc j))\<bar> \<le> real (Suc j) / 2 ^ 54"
      using abs_chain_up [OF d e] by (simp only: Suc_steps)
    then have "\<bar>iod (run g (f # fs)) - (iod g + 0.01 * real (Suc j))\<bar> \<le> real (Suc j) / 2 ^ 54"
      by (simp only: run.simps)
    moreover have "Suc j \<le> length (f # fs)" using j by simp
    moreover have "Suc j = length (f # fs) \<or> to_double 0.3 \<le> iod (run g (f # fs))"
      using t by auto
    ultimately show ?thesis by blast
  next
    case False
    then have "iod (run g (f # fs)) = iod g"
      using iod_stay_up [OF Cons.prems(1)] by simp
    then have "\<bar>iod (run g (f # fs)) - (iod g + 0.01 * real (0::nat))\<bar> \<le> real (0::nat) / 2 ^ 54
        \<and> (0 = length (f # fs) \<or> to_double 0.3 \<le> iod (run g (f # fs)))"
      using False by simp
    then show ?thesis by blast
  qed
qed

lemma iod_decrease_run:
  assumes "list_all decrease_frame fs" and "- 0.31 < iod g" and "iod g < 0.31"
  shows "\<exists>j\<le>length fs. \<bar>iod (run g fs) - (iod g - 0.01 * real j)\<bar> \<le> real j / 2 ^ 54
           \<and> (j = length fs \<or> iod (run g fs) \<le> - to_double 0.3)"
  using assms
proof (induction fs arbitrary: g)
  case Nil
  then show ?case by simp
next
  case (Cons f fs)
  then have f: "decrease_frame f" and fs: "list_all decrease_frame fs" by simp_all
  show ?case
  proof (cases "- to_double 0.3 < iod g")
    case True
    let ?g = "frame g f"
    have s: "iod ?g = to_double (iod g - to_double 0.01)"
      using True by (simp add: iod_decrease_frame [OF f])
    have b: "- 0.31 < iod ?g" "iod ?g < 0.31"
      using step_down_bound [OF True Cons.prems(3)] by (simp_all only: s)
    have e: "\<bar>iod ?g - (iod g - 0.01)\<bar> \<le> 1 / 2 ^ 54"
      using step_down_error [OF Cons.prems(2,3)] by (simp only: s)
    from Cons.IH [OF fs b] obtain j where j: "j \<le> length fs"
      and d: "\<bar>iod (run ?g fs) - (iod ?g - 0.01 * real j)\<bar> \<le> real j / 2 ^ 54"
      and t: "j = length fs \<or> iod (run ?g fs) \<le> - to_double 0.3"
      by blast
    have "\<bar>iod (run ?g fs) - (iod g - 0.01 * real (Suc j))\<bar> \<le> real (Suc j) / 2 ^ 54"
      using abs_chain_down [OF d e] by (simp only: Suc_steps)
    then have "\<bar>iod (run g (f # fs)) - (iod g - 0.01 * real (Suc j))\<bar> \<le> real (Suc j) / 2 ^ 54"
      by (simp only: run.simps)
    moreover have "Suc j \<le> length (f # fs)" using j by simp
    moreover have "Suc j = length (f # fs) \<or> iod (run g (f # fs)) \<le> - to_double 0.3"
      using t by auto
    ultimately show ?thesis by blast
  next
    case False
    then have "iod (run g (f # fs)) = iod g"
      using iod_stay_down [OF Cons.prems(1)] by simp
    then have "\<bar>iod (run g (f # fs)) - (iod g - 0.01 * real (0::nat))\<bar> \<le> real (0::nat) / 2 ^ 54
        \<and> (0 = length (f # fs) \<or> iod (run g (f # fs)) \<le> - to_double 0.3)"
      using False by simp
    then show ?thesis by blast
  qed
qed

lemma iod_frame_bound:
  assumes "- 0.31 < iod g \<and> iod g < 0.31 \<and> - 0.31 < iod_origin g \<and> iod_origin g < 0.31"
  shows "- 0.31 < iod (frame g f) \<and> iod (frame g f) < 0.31
    \<and> - 0.31 < iod_origin (frame g f) \<and> iod_origin (frame g f) < 0.31"
proof -
  have c: "- 0.31 < iod (change_iod h) \<and> iod (change_iod h) < 0.31"
    if "iod h = iod g" "iod_origin h = iod_origin g" for h :: "'a RiftApp"
    using assms that step_up_bound [of "iod g"] step_down_bound [of "iod g"]
    by (simp add: iod_change_iod)
  show ?thesis
    using assms c [of g] c [of "update_input (the (fst f)) g"]
    by (auto simp add: iod_frame split: option.splits)
qed

lemma iod_run_bound:
  assumes "- 0.31 < iod g \<and> iod g < 0.31 \<and> - 0.31 < iod_origin g \<and> iod_origin g < 0.31"
  shows "- 0.31 < iod (run g fs) \<and> iod (run g fs) < 0.31"
  using assms
proof (induction fs arbitrary: g)
  case Nil
  then show ?case by simp
next
  case (Cons f fs)
  from Cons.IH [OF iod_frame_bound [OF Cons.prems]] show ?case by simp
qed

lemma push_right_inc: "increase_frame push_right"
  by (simp add: increase_frame_def push_right_def at_rest_def thumb_def idle_def)

lemma pull_right_dec: "decrease_frame pull_right"
  by (simp add: decrease_frame_def pull_right_def at_rest_def thumb_def idle_def)


lemma increase_step:
  assumes "iod g = a" and "a < to_double 0.3" and "to_double (a + to_double 0.01) = b"
  shows "iod (frame g push_right) = b"
  using assms by (simp add: iod_increase_frame [OF push_right_inc])

lemma five_steps:
  "iod (run quarter_state (replicate 5 push_right)) = 1351079888211149 / 2 ^ 52"
proof -
  let ?p = "push_right"
  have e1: "to_double (1 / 4 + to_double 0.01) = 1170935903116329 / 2 ^ 52"
    unfolding double_0_01 unfolding to_double_def
    by (subst round_to_binade [of 1]) (simp_all add: round_even_def)
  have e2: "to_double (1170935903116329 / 2 ^ 52 + to_double 0.01) = 607985949695017 / 2 ^ 51"
    unfolding double_0_01 unfolding to_double_def
    by (subst round_to_binade [of 1]) (simp_all add: round_even_def)
  have e3: "to_double (607985949695017 / 2 ^ 51 + to_double 0.01) = 1261007895663739 / 2 ^ 52"
    unfolding double_0_01 unfolding to_double_def
    by (subst round_to_binade [of 1]) (simp_all add: round_even_def)
  have e4: "to_double (1261007895663739 / 2 ^ 52 + to_double 0.01) = 326510972984361 / 2 ^ 50"
    unfolding double_0_01 unfolding to_double_def
    by (subst round_to_binade [of 1]) (simp_all add: round_even_def)
  have e5: "to_double (326510972984361 / 2 ^ 50 + to_double 0.01) = 1351079888211149 / 2 ^ 52"
    unfolding double_0_01 unfolding to_double_def
    by (subst round_to_binade [of 1]) (simp_all add: round_even_def)
  have l: "(1::real) / 4 < to_double 0.3" "(1170935903116329::real) / 2 ^ 52 < to_double 0.3"
    "(607985949695017::real) / 2 ^ 51 < to_double 0.3"
    "(1261007895663739::real) / 2 ^ 52 < to_double 0.3"
    "(326510972984361::real) / 2 ^ 50 < to_double 0.3"
    by (simp_all add: double_0_3)
  have s0: "iod quarter_state = 1 / 4" by (simp add: iod_quarter_state)
  note s1 = increase_step [OF s0 l(1) e1]
  note s2 = increase_step [OF s1 l(2) e2]
  note s3 = increase_step [OF s2 l(3) e3]
  note s4 = increase_step [OF s3 l(4) e4]
  note s5 = increase_step [OF s4 l(5) e5]
  have "run quarter_state (replicate 5 ?p)
      = frame (frame (frame (frame (frame quarter_state ?p) ?p) ?p) ?p) ?p"
    by (simp add: numeral_eq_Suc)
  then show ?thesis by (simp only: s5)
qed

text \<open>
  Claim C4, as amended. A frame that asks for an increase adds the \<open>double\<close> nearest
  to 0.01, in \<open>double\<close> arithmetic, if the distance is below the \<open>double\<close> nearest to
  0.3, and leaves it otherwise; a frame that asks for a decrease subtracts it if the
  distance is above minus that bound. So from a distance \<open>d\<close> strictly between -0.31
  and 0.31, \<open>N\<close> frames that all ask for an increase make some number \<open>j \<le> N\<close> of
  additions: the result is within \<open>j / 2 ^ 54\<close> of \<open>d + 0.01 * j\<close>, and \<open>j = N\<close> unless
  the result has reached the bound; likewise downwards. A frame that asks for a reset
  leaves the recorded original. If the distance and the recorded original lie strictly
  between -0.31 and 0.31, so does the distance after any frames.
\<close>

theorem iod_steps:
  "(increase_frame f \<longrightarrow>
      iod (frame g f) =
        (if iod g < to_double 0.3 then to_double (iod g + to_double 0.01) else iod g))
   \<and> (decrease_frame f \<longrightarrow>
      iod (frame g f) =
        (if iod g > - to_double 0.3 then to_double (iod g - to_double 0.01) else iod g))
   \<and> (list_all increase_frame fs \<and> - 0.31 < iod g \<and> iod g < 0.31 \<longrightarrow>
      (\<exists>j\<le>length fs. \<bar>iod (run g fs) - (iod g + 0.01 * real j)\<bar> \<le> real j / 2 ^ 54
          \<and> (j = length fs \<or> to_double 0.3 \<le> iod (run g fs))))
   \<and> (list_all decrease_frame fs \<and> - 0.31 < iod g \<and> iod g < 0.31 \<longrightarrow>
      (\<exists>j\<le>length fs. \<bar>iod (run g fs) - (iod g - 0.01 * real j)\<bar> \<le> real j / 2 ^ 54
          \<and> (j = length fs \<or> iod (run g fs) \<le> - to_double 0.3)))
   \<and> (reset_frame f \<longrightarrow> iod (frame g f) = iod_origin g)
   \<and> (- 0.31 < iod g \<and> iod g < 0.31 \<and> - 0.31 < iod_origin g \<and> iod_origin g < 0.31 \<longrightarrow>
      - 0.31 < iod (run g fs) \<and> iod (run g fs) < 0.31)"
proof (intro conjI impI)
  assume "increase_frame f"
  then show "iod (frame g f) =
      (if iod g < to_double 0.3 then to_double (iod g + to_double 0.01) else iod g)"
    by (rule iod_increase_frame)
next
  assume "decrease_frame f"
  then show "iod (frame g f) =
      (if iod g > - to_double 0.3 then to_double (iod g - to_double 0.01) else iod g)"
    by (rule iod_decrease_frame)
next
  assume "list_all increase_frame fs \<and> - 0.31 < iod g \<and> iod g < 0.31"
  then show "\<exists>j\<le>length fs. \<bar>iod (run g fs) - (iod g + 0.01 * real j)\<bar> \<le> real j / 2 ^ 54
      \<and> (j = length fs \<or> to_double 0.3 \<le> iod (run g fs))"
    using iod_increase_run [of fs g] by blast
next
  assume "list_all decrease_frame fs \<and> - 0.31 < iod g \<and> iod g < 0.31"
  then show "\<exists>j\<le>length fs. \<bar>iod (run g fs) - (iod g - 0.01 * real j)\<bar> \<le> real j / 2 ^ 54
      \<and> (j = length fs \<or> iod (run g fs) \<le> - to_double 0.3)"
    using iod_decrease_run [of fs g] by blast
next
  assume "reset_frame f"
  then show "iod (frame g f) = iod_origin g" by (rule iod_reset_frame)
next
  assume a: "- 0.31 < iod g \<and> iod g < 0.31 \<and> - 0.31 < iod_origin g \<and> iod_origin g < 0.31"
  from iod_run_bound [OF a] show "- 0.31 < iod (run g fs)" by simp
  from iod_run_bound [OF a] show "iod (run g fs) < 0.31" by simp
qed


theorem iod_steps_witness:
  "increase_frame push_right
   \<and> iod (frame quarter_state push_right) = 1170935903116329 / 2 ^ 52
   \<and> decrease_frame pull_right
   \<and> iod (frame quarter_state pull_right) = 1080863910568919 / 2 ^ 52
   \<and> list_all increase_frame (replicate 30 push_right)
   \<and> - 0.31 < iod start \<and> iod start < 0.31
   \<and> - 0.31 < iod_origin start \<and> iod_origin start < 0.31
   \<and> \<bar>iod (run start (replicate 30 push_right)) - 0.3025\<bar> \<le> 24 / 2 ^ 54
   \<and> list_all decrease_frame (replicate 40 pull_right)
   \<and> \<bar>iod (run start (replicate 40 pull_right)) + 0.3075\<bar> \<le> 37 / 2 ^ 54
   \<and> reset_frame (at_rest (press ovrButton_A))
   \<and> iod (frame (run start (replicate 30 push_right)) (at_rest (press ovrButton_A))) = 0.0625
   \<and> - 0.31 < iod (run start (replicate 30 push_right @ replicate 40 pull_right))
   \<and> iod (run start (replicate 30 push_right @ replicate 40 pull_right)) < 0.31"
proof -
  let ?up = "replicate 30 push_right" and ?down = "replicate 40 pull_right"
  let ?click = "at_rest (press ovrButton_A)"
  note s = iod_start
  have i: "list_all increase_frame ?up"
    by (simp add: list_all_iff push_right_inc)
  have d: "list_all decrease_frame ?down"
    by (simp add: list_all_iff pull_right_dec)
  have r: "reset_frame ?click"
    by (simp add: reset_frame_def at_rest_def press_def idle_def ovrButton_A_def)
  have b: "- 0.31 < iod start" "iod start < 0.31" "- 0.31 < iod_origin start"
    "iod_origin start < 0.31"
    unfolding s by simp_all
  have D: "to_double 0.3 = 5404319552844595 / 18014398509481984"
    by (simp add: double_0_3)
  have u1: "to_double (1 / 4 + to_double 0.01) = 1170935903116329 / 2 ^ 52"
    unfolding double_0_01 unfolding to_double_def
    by (subst round_to_binade [of 1]) (simp_all add: round_even_def)
  have d1: "to_double (1 / 4 - to_double 0.01) = 1080863910568919 / 2 ^ 52"
    unfolding double_0_01 unfolding to_double_def
    by (subst round_to_binade [of 2]) (simp_all add: round_even_def)
  from iod_steps [of push_right quarter_state "[]"] push_right_inc
  have "iod (frame quarter_state push_right) =
      (if iod quarter_state < to_double 0.3
       then to_double (iod quarter_state + to_double 0.01) else iod quarter_state)"
    by blast
  then have c1: "iod (frame quarter_state push_right) = 1170935903116329 / 2 ^ 52"
    unfolding iod_quarter_state using u1 by (simp add: double_0_3)
  from iod_steps [of pull_right quarter_state "[]"] pull_right_dec
  have "iod (frame quarter_state pull_right) =
      (if iod quarter_state > - to_double 0.3
       then to_double (iod quarter_state - to_double 0.01) else iod quarter_state)"
    by blast
  then have c2: "iod (frame quarter_state pull_right) = 1080863910568919 / 2 ^ 52"
    unfolding iod_quarter_state using d1 by (simp add: double_0_3)
  from iod_steps [of ?click start "?up @ ?down"] b
  have c6: "- 0.31 < iod (run start (?up @ ?down)) \<and> iod (run start (?up @ ?down)) < 0.31"
    by blast
  have c3: "\<bar>iod (run start ?up) - 0.3025\<bar> \<le> 24 / 2 ^ 54"
  proof -
    define x where "x = iod (run start ?up)"
    from iod_steps [of ?click start ?up] i b
    obtain j where j: "j \<le> length ?up"
      and e: "\<bar>x - (iod start + 0.01 * real j)\<bar> \<le> real j / 2 ^ 54"
      and t: "j = length ?up \<or> to_double 0.3 \<le> x"
      unfolding x_def by blast
    from iod_steps [of ?click start ?up] b have "x < 0.31" unfolding x_def by blast
    then have hi: "x < 31 / 100" by simp
    have e': "\<bar>x - (1 / 16 + real j / 100)\<bar> \<le> real j / 18014398509481984"
      using e unfolding s by simp
    have j30: "real j \<le> 30" using j by simp
    have "j \<le> 24"
    proof (rule ccontr)
      assume "\<not> j \<le> 24"
      then have "25 \<le> real j" by simp
      with e' hi j30 show False by linarith
    qed
    moreover have "24 \<le> j"
    proof (rule ccontr)
      assume n: "\<not> 24 \<le> j"
      then have l: "real j \<le> 23" by simp
      from n j t have "5404319552844595 / 18014398509481984 \<le> x" unfolding D by auto
      with e' l show False by linarith
    qed
    ultimately have "j = 24" by simp
    with e' show ?thesis unfolding x_def by simp
  qed
  have c4: "\<bar>iod (run start ?down) + 0.3075\<bar> \<le> 37 / 2 ^ 54"
  proof -
    define x where "x = iod (run start ?down)"
    from iod_steps [of ?click start ?down] d b
    obtain j where j: "j \<le> length ?down"
      and e: "\<bar>x - (iod start - 0.01 * real j)\<bar> \<le> real j / 2 ^ 54"
      and t: "j = length ?down \<or> x \<le> - to_double 0.3"
      unfolding x_def by blast
    from iod_steps [of ?click start ?down] b have "- 0.31 < x" unfolding x_def by blast
    then have lo: "- (31 / 100) < x" by simp
    have e': "\<bar>x - (1 / 16 - real j / 100)\<bar> \<le> real j / 18014398509481984"
      using e unfolding s by simp
    have j40: "real j \<le> 40" using j by simp
    have "j \<le> 37"
    proof (rule ccontr)
      assume "\<not> j \<le> 37"
      then have "38 \<le> real j" by simp
      with e' lo j40 show False by linarith
    qed
    moreover have "37 \<le> j"
    proof (rule ccontr)
      assume n: "\<not> 37 \<le> j"
      then have l: "real j \<le> 36" by simp
      from n j t have "x \<le> - (5404319552844595 / 18014398509481984)" unfolding D by auto
      with e' l show False by linarith
    qed
    ultimately have "j = 37" by simp
    with e' show ?thesis unfolding x_def by simp
  qed
  have o: "iod_origin (run start ?up) = 0.0625"
    using s by (simp only: iod_origin_run)
  from iod_steps [of ?click "run start ?up" "[]"] r
  have "iod (frame (run start ?up) ?click) = iod_origin (run start ?up)"
    by blast
  then have c5: "iod (frame (run start ?up) ?click) = 0.0625" unfolding o .
  from push_right_inc pull_right_dec i d r b c1 c2 c3 c4 c5 c6 show ?thesis by blast
qed

text \<open>
  From 0.0625 twenty-four increases end above 0.3024: the step from about 0.2925 is
  taken because that is below 0.3. From 0.25 five increases end one \<open>ulp\<close> above the
  \<open>double\<close> nearest to 0.3, and above 0.3. The claimed value is 0.3 both times; for
  the second run the claimed formula evaluated in \<open>double\<close> arithmetic gives the
  \<open>double\<close> nearest to 0.3. Both results are outside the claimed range.
\<close>

theorem overshoot_counterexample:
  "list_all increase_frame (replicate 24 push_right)
   \<and> iod start = 0.0625
   \<and> 0.3024 < iod (run start (replicate 24 push_right))
   \<and> min (0.0625 + 0.01 * 24) 0.3 = (0.3::real)
   \<and> \<not> iod (run start (replicate 24 push_right)) \<le> 0.3
   \<and> list_all increase_frame (replicate 5 push_right)
   \<and> iod quarter_state = 0.25
   \<and> iod (run quarter_state (replicate 5 push_right)) = 1351079888211149 / 2 ^ 52
   \<and> min (0.25 + 0.01 * 5) 0.3 = (0.3::real)
   \<and> min (to_double (0.25 + to_double (to_double 0.01 * 5))) (to_double 0.3)
       = 5404319552844595 / 2 ^ 54
   \<and> \<not> iod (run quarter_state (replicate 5 push_right)) \<le> 0.3"
proof -
  let ?up = "replicate 24 push_right"
  have i: "list_all increase_frame ?up"
    by (simp add: list_all_iff push_right_inc)
  have i5: "list_all increase_frame (replicate 5 push_right)"
    by (simp add: list_all_iff push_right_inc)
  have D: "to_double 0.3 = 5404319552844595 / 18014398509481984"
    by (simp add: double_0_3)
  have c: "0.3024 < iod (run start ?up)"
  proof -
    define x where "x = iod (run start ?up)"
    have b: "- 0.31 < iod start" "iod start < 0.31" unfolding iod_start by simp_all
    from iod_increase_run [OF i b]
    obtain j where j: "j \<le> length ?up"
      and e: "\<bar>x - (iod start + 0.01 * real j)\<bar> \<le> real j / 2 ^ 54"
      and t: "j = length ?up \<or> to_double 0.3 \<le> x"
      unfolding x_def by blast
    have e': "\<bar>x - (1 / 16 + real j / 100)\<bar> \<le> real j / 18014398509481984"
      using e unfolding iod_start by simp
    have "24 \<le> j"
    proof (rule ccontr)
      assume n: "\<not> 24 \<le> j"
      then have l: "real j \<le> 23" by simp
      from n j t have "5404319552844595 / 18014398509481984 \<le> x" unfolding D by auto
      with e' l show False by linarith
    qed
    with j have "real j = 24" by simp
    with e' have "3024 / 10000 < x" by linarith
    then show ?thesis unfolding x_def by simp
  qed
  have m: "min (0.0625 + 0.01 * 24) 0.3 = (0.3::real)" by simp
  have n: "\<not> iod (run start ?up) \<le> 0.3" using c by simp
  have m5: "min (0.25 + 0.01 * 5) 0.3 = (0.3::real)" by simp
  have p: "to_double (to_double 0.01 * 5) = 3602879701896397 / 2 ^ 56"
    unfolding double_0_01 unfolding to_double_def
    by (subst round_to_binade [of 4]) (simp_all add: round_even_def)
  have q: "to_double (0.25 + 3602879701896397 / 2 ^ 56) = 5404319552844595 / 2 ^ 54"
    unfolding to_double_def
    by (subst round_to_binade [of 1]) (simp_all add: round_even_def)
  have d5: "min (to_double (0.25 + to_double (to_double 0.01 * 5))) (to_double 0.3)
      = 5404319552844595 / 2 ^ 54"
    unfolding p q double_0_3 by simp
  have n5: "\<not> iod (run quarter_state (replicate 5 push_right)) \<le> 0.3"
    unfolding five_steps by simp
  from i iod_start(1) c m n i5 iod_quarter_state(1) five_steps m5 d5 n5 show ?thesis by blast
qed

section \<open>The rendering-lag freeze\<close>

lemma count_update:
  "count (update x g) = (if count g = 0 then render_lag (update x g) else count g - 1)"
  by (simp add: update_def update_count_def split: option.splits)

lemma count_frame:
  "count (frame g f) = (if count g = 0 then render_lag (frame g f) else count g - 1)"
  by (simp add: frame_fields count_update)

lemma render_lag_triggers:
  "render_lag g - 1 \<le> render_lag (update_triggers i g)
   \<and> (0 \<le> render_lag g \<longrightarrow> 0 \<le> render_lag (update_triggers i g))"
  by (simp add: update_triggers_def inc_render_lag_def dec_render_lag_def inc_tracking_lag_def
      dec_tracking_lag_def release_touch_def)

lemma render_lag_frame:
  "render_lag g - 1 \<le> render_lag (frame g f)
   \<and> (0 \<le> render_lag g \<longrightarrow> 0 \<le> render_lag (frame g f))"
  using render_lag_triggers [of g]
  by (simp add: frame_fields update_lags split: option.splits)

lemma after_draw:
  "left_pos_old (snd (draw g p)) = left_pos_new (snd (draw g p))"
  "right_pos_old (snd (draw g p)) = right_pos_new (snd (draw g p))"
  "projection_old (snd (draw g p)) = eyeProjections (snd (draw g p))"
  by (simp_all add: draw_def Let_def freeze_decision_def)

lemma settled_frame:
  assumes "settled g"
  shows "settled (frame g f)"
proof -
  have "0 \<le> count (frame g f) \<and> count (frame g f) \<le> render_lag (frame g f)"
    using assms render_lag_frame [of g f]
    by (auto simp add: settled_def count_frame)
  then show ?thesis
    by (simp add: settled_def) (simp add: frame_def after_draw)
qed

lemma settled_run: "settled g \<Longrightarrow> settled (run g fs)"
  by (induction fs arbitrary: g) (simp_all add: settled_frame)

lemma settled_new: "settled (RiftApp_new projs xs mem)"
  by (simp add: settled_def RiftApp_new_def split: prod.splits)

lemma draw_poses:
  assumes "button_B g = 1"
  shows "left_pos_new (snd (draw g p)) = (if count g = 0 then fst p else left_pos_old g)"
    and "right_pos_new (snd (draw g p)) = (if count g = 0 then snd p else right_pos_old g)"
    and "eyeProjections (snd (draw g p)) = (if count g = 0 then eyeProjections g else projection_old g)"
  using assms by (simp_all add: draw_def Let_def stabilize_def freeze_decision_def)

lemma frame_poses:
  assumes "button_B (frame g f) = 1"
  shows "left_pos_new (frame g f) = (if count (frame g f) = 0 then fst (snd f) else left_pos_old g)"
    and "right_pos_new (frame g f) = (if count (frame g f) = 0 then snd (snd f) else right_pos_old g)"
    and "eyeProjections (frame g f) =
          (if count (frame g f) = 0 then eyeProjections g else projection_old g)"
proof -
  have b: "button_B (update (fst f) g) = 1" using assms by (simp add: frame_fields)
  show "left_pos_new (frame g f) = (if count (frame g f) = 0 then fst (snd f) else left_pos_old g)"
    using draw_poses(1) [OF b] by (simp add: frame_def)
  show "right_pos_new (frame g f) = (if count (frame g f) = 0 then snd (snd f) else right_pos_old g)"
    using draw_poses(2) [OF b] by (simp add: frame_def)
  show "eyeProjections (frame g f) =
          (if count (frame g f) = 0 then eyeProjections g else projection_old g)"
    using draw_poses(3) [OF b] by (simp add: frame_def)
qed

lemma dispatch_after_draw: "fst (draw g p) = dispatch (snd (draw g p))"
  by (simp add: draw_def Let_def dispatch_def eye_calls_def)

lemma frame_calls_dispatch: "frame_calls g f = dispatch (frame g f)"
  by (simp add: frame_calls_def frame_def dispatch_after_draw)

lemma frame_projections:
  "eyeProjections (frame g f) =
     (if count (frame g f) = 0 then eyeProjections g else projection_old g)"
  "projection_old (frame g f) = eyeProjections (frame g f)"
  by (simp_all add: frame_def draw_def Let_def freeze_decision_def stabilize_def)

lemma run_append: "run g (as @ bs) = run (run g as) bs"
  by (induction as arbitrary: g) simp_all

text \<open>
  Once a frame has ended with the countdown at 0, the saved projections are the
  current ones, and both stay what they are: \<open>draw\<close> copies one to the other.
\<close>

lemma new_projections: "eyeProjections (RiftApp_new projs xs mem) = projs"
  by (simp add: RiftApp_new_def split: prod.splits)

lemma captured_first:
  assumes "count (frame (RiftApp_new projs xs mem) f) = 0"
  shows "eyeProjections (frame (RiftApp_new projs xs mem) f) = projs
    \<and> projection_old (frame (RiftApp_new projs xs mem) f) = projs"
  using assms by (simp add: frame_projections new_projections)

lemma captured_frame:
  assumes "eyeProjections g = projs \<and> projection_old g = projs"
  shows "eyeProjections (frame g f) = projs \<and> projection_old (frame g f) = projs"
  using assms by (simp add: frame_projections)

lemma captured_run:
  assumes "eyeProjections g = projs \<and> projection_old g = projs"
  shows "eyeProjections (run g fs) = projs \<and> projection_old (run g fs) = projs"
  using assms
proof (induction fs arbitrary: g)
  case Nil
  then show ?case by simp
next
  case (Cons f fs)
  from Cons.IH [OF captured_frame [OF Cons.prems]] show ?case by simp
qed

lemma projections_pinned:
  assumes "count (run (RiftApp_new projs xs mem) (take 1 fs)) = 0" and "fs \<noteq> []"
  shows "eyeProjections (run (RiftApp_new projs xs mem) fs) = projs"
proof -
  from assms(2) obtain f rest where fs: "fs = f # rest" by (cases fs) simp_all
  from assms(1) have "count (frame (RiftApp_new projs xs mem) f) = 0" by (simp add: fs)
  from captured_run [OF captured_first [OF this], of rest] show ?thesis by (simp add: fs)
qed

text \<open>
  If the very first frame raises the rendering lag, the countdown is 1 when \<open>draw\<close>
  first runs: \<open>draw\<close> restores the projections from \<open>projection_old\<close>, which nothing
  has assigned yet, and the projections the constructor computed are lost.
\<close>

lemma restore_before_save:
  "eyeProjections (frame (RiftApp_new projs xs (saved, lold, lnew, rold, rnew))
     (Some (squeeze 0 0 0 0.5), p)) = saved"
  by (simp add: ex_defs step_defs)

lemma length_trace [simp]: "length (trace g fs) = Suc (length fs)"
  by (induction fs arbitrary: g) simp_all

lemma trace_0 [simp]: "trace g fs ! 0 = g"
  by (cases fs) simp_all

lemma trace_Suc: "n < length fs \<Longrightarrow> trace g fs ! Suc n = frame (trace g fs ! n) (fs ! n)"
proof (induction fs arbitrary: g n)
  case Nil
  then show ?case by simp
next
  case (Cons f fs)
  show ?case
  proof (cases n)
    case 0
    then show ?thesis by simp
  next
    case (Suc m)
    with Cons.prems have "m < length fs" by simp
    from Cons.IH [OF this, of "frame g f"] Suc show ?thesis by simp
  qed
qed

lemma trace_run: "n \<le> length fs \<Longrightarrow> trace g fs ! n = run g (take n fs)"
proof (induction fs arbitrary: g n)
  case Nil
  then show ?case by simp
next
  case (Cons f fs)
  then show ?case by (cases n) simp_all
qed

lemma mod_pred:
  fixes a K :: int
  assumes "0 < K"
  shows "(a - 1) mod K = (if a mod K = 0 then K - 1 else a mod K - 1)"
proof (cases "a mod K = 0")
  case True
  then have "(a - 1) mod K = (0 - 1) mod K"
    by (metis mod_diff_left_eq)
  also have "\<dots> = K - 1" using assms
    by (simp add: zmod_minus1)
  finally show ?thesis using True by simp
next
  case False
  have r: "0 \<le> a mod K" "a mod K < K" using assms by simp_all
  with False have "0 \<le> a mod K - 1" "a mod K - 1 < K" by simp_all
  then have "(a mod K - 1) mod K = a mod K - 1" by simp
  moreover have "(a - 1) mod K = (a mod K - 1) mod K"
    by (simp add: mod_diff_left_eq)
  ultimately show ?thesis using False by simp
qed

lemma mod_zero_iff:
  fixes a j K :: int
  assumes "0 \<le> j" "j < K"
  shows "(a - j) mod K = 0 \<longleftrightarrow> j = a mod K"
proof
  assume "(a - j) mod K = 0"
  then have "K dvd a - j" by (simp add: mod_eq_0_iff_dvd)
  then have "a mod K = j mod K" by (simp add: mod_eq_dvd_iff)
  with assms show "j = a mod K" by simp
next
  assume "j = a mod K"
  then show "(a - j) mod K = 0" by (simp add: minus_mod_eq_mult_div)
qed

lemma window_unique:
  fixes K c :: int and m :: nat
  assumes "0 < K"
  shows "\<exists>!n::nat. m \<le> n \<and> int n < int m + K \<and> (c - int (Suc n)) mod K = 0"
proof -
  define r where "r = (c - int m - 1) mod K"
  have r: "0 \<le> r" "r < K" using assms by (simp_all add: r_def)
  have key: "(c - int (Suc n)) mod K = 0 \<longleftrightarrow> int n - int m = r"
    if "m \<le> n" "int n < int m + K" for n
  proof -
    have e: "c - int (Suc n) = (c - int m - 1) - (int n - int m)" by simp
    have "0 \<le> int n - int m" "int n - int m < K" using that by simp_all
    from mod_zero_iff [OF this, of "c - int m - 1"]
    show ?thesis unfolding e r_def .
  qed
  show ?thesis
  proof (rule ex1I [of _ "m + nat r"])
    show "m \<le> m + nat r \<and> int (m + nat r) < int m + K \<and> (c - int (Suc (m + nat r))) mod K = 0"
      using r key [of "m + nat r"] by simp
  next
    fix n
    assume n: "m \<le> n \<and> int n < int m + K \<and> (c - int (Suc n)) mod K = 0"
    with key [of n] have "int n - int m = r" by simp
    then show "n = m + nat r" using n by linarith
  qed
qed

lemma count_closed_form:
  assumes "0 \<le> count g" "count g \<le> k"
    and "\<forall>n\<le>length fs. render_lag (trace g fs ! n) = k"
    and "n \<le> length fs"
  shows "count (trace g fs ! n) = (count g - int n) mod (k + 1)"
  using assms(4)
proof (induction n)
  case 0
  then show ?case using assms(1,2) by simp
next
  case (Suc n)
  then have n: "n < length fs" by simp
  have K: "0 < k + 1" using assms(1,2) by simp
  have rl: "render_lag (trace g fs ! Suc n) = k" using assms(3) Suc.prems by blast
  have "count (trace g fs ! Suc n) =
      (if count (trace g fs ! n) = 0 then k else count (trace g fs ! n) - 1)"
    using rl by (simp add: trace_Suc [OF n] count_frame [symmetric]) (simp add: count_frame rl)
  also have "\<dots> = (count g - int n - 1) mod (k + 1)"
    using Suc.IH n mod_pred [OF K, of "count g - int n"] by simp
  finally show ?case by (simp add: algebra_simps)
qed

lemma start_new:
  "start = RiftApp_new (M 1, M 2) (- 0.03125, 0.03125) ((M 0, M 0), M 0, M 0, M 0, M 0)"
  by (simp add: start_def)

text \<open>
  Claim C1, as amended. Take any state the loop reaches from the start state and any
  further frames \<open>fs\<close>. The calls of each frame are those of \<open>dispatch\<close> on the state
  the frame leaves. If the very first frame of the run ended with the countdown at 0,
  the projections in every state, before and after each frame, are the ones the
  constructor computed: a frame with the countdown at 0 passes the current ones and
  saves them, any other frame passes the saved ones. If over \<open>fs\<close> the rendering lag stays \<open>k\<close> and the
  stabilisation mode \<open>button_B\<close> stays 1, the poses in that state are the poses sampled
  in this frame when the countdown is 0 after \<open>update\<close>, and the poses of the frame
  before otherwise; and among any \<open>k + 1\<close> consecutive frames exactly one has the
  countdown at 0; for \<open>k = 0\<close> that is every frame.
\<close>

theorem render_lag_freeze:
  fixes projs :: "'c mat4 \<times> 'c mat4" and xs :: "real \<times> real"
    and mem :: "('c mat4 \<times> 'c mat4) \<times> 'c mat4 \<times> 'c mat4 \<times> 'c mat4 \<times> 'c mat4"
    and pre fs :: "'c frame_input list"
  defines "tr \<equiv> trace (run (RiftApp_new projs xs mem) pre) fs"
  shows "(\<forall>n<length fs. frame_calls (tr ! n) (fs ! n) = dispatch (tr ! Suc n))
       \<and> (count (run (RiftApp_new projs xs mem) (take 1 (pre @ fs))) = 0 \<longrightarrow>
            (\<forall>n\<le>length fs. eyeProjections (tr ! n) = projs))
       \<and> (list_all (\<lambda>s. render_lag s = k \<and> button_B s = 1) tr \<longrightarrow>
            (\<forall>n<length fs.
               if count (tr ! Suc n) = 0
               then left_pos_new (tr ! Suc n) = fst (snd (fs ! n))
                    \<and> right_pos_new (tr ! Suc n) = snd (snd (fs ! n))
               else left_pos_new (tr ! Suc n) = left_pos_new (tr ! n)
                    \<and> right_pos_new (tr ! Suc n) = right_pos_new (tr ! n))
            \<and> (\<forall>m. m + nat k < length fs \<longrightarrow>
                 (\<exists>!n. m \<le> n \<and> n \<le> m + nat k \<and> count (tr ! Suc n) = 0)))"
proof -
  define g where "g = run (RiftApp_new projs xs mem) pre"
  have tr: "tr = trace g fs" by (simp add: tr_def g_def)
  have g: "settled g" unfolding g_def by (rule settled_run [OF settled_new])
  have S: "settled (tr ! n)" if "n \<le> length fs" for n
    using that by (simp add: tr trace_run settled_run [OF g])
  have step: "tr ! Suc n = frame (tr ! n) (fs ! n)" if "n < length fs" for n
    using that by (simp add: tr trace_Suc)
  have part0: "frame_calls (tr ! n) (fs ! n) = dispatch (tr ! Suc n)" if "n < length fs" for n
    by (simp add: step [OF that] frame_calls_dispatch)
  have part1: "eyeProjections (tr ! n) = projs"
    if first: "count (run (RiftApp_new projs xs mem) (take 1 (pre @ fs))) = 0"
      and n: "n \<le> length fs" for n
  proof -
    have t: "tr ! n = run (RiftApp_new projs xs mem) (pre @ take n fs)"
      using n by (simp add: tr trace_run g_def run_append)
    show ?thesis
    proof (cases "pre @ take n fs = []")
      case True
      with t have "tr ! n = RiftApp_new projs xs mem" by (simp only: run.simps)
      then show ?thesis by (simp only: new_projections)
    next
      case False
      have "take 1 (pre @ take n fs) = take 1 (pre @ fs)"
        using False by (cases pre; cases n) simp_all
      with projections_pinned [of projs xs mem "pre @ take n fs"] first False
      show ?thesis unfolding t by simp
    qed
  qed
  have part2: "(\<forall>n<length fs.
               if count (tr ! Suc n) = 0
               then left_pos_new (tr ! Suc n) = fst (snd (fs ! n))
                    \<and> right_pos_new (tr ! Suc n) = snd (snd (fs ! n))
               else left_pos_new (tr ! Suc n) = left_pos_new (tr ! n)
                    \<and> right_pos_new (tr ! Suc n) = right_pos_new (tr ! n))
            \<and> (\<forall>m. m + nat k < length fs \<longrightarrow>
                 (\<exists>!n. m \<le> n \<and> n \<le> m + nat k \<and> count (tr ! Suc n) = 0))"
    if stable: "list_all (\<lambda>s. render_lag s = k \<and> button_B s = 1) tr"
  proof -
    have H: "render_lag (tr ! n) = k \<and> button_B (tr ! n) = 1" if "n \<le> length fs" for n
      using stable that by (simp add: list_all_length tr)
    have k: "0 \<le> count g" "count g \<le> k"
      using g H [of 0] by (simp_all add: settled_def tr)
    have poses: "if count (tr ! Suc n) = 0
               then left_pos_new (tr ! Suc n) = fst (snd (fs ! n))
                    \<and> right_pos_new (tr ! Suc n) = snd (snd (fs ! n))
               else left_pos_new (tr ! Suc n) = left_pos_new (tr ! n)
                    \<and> right_pos_new (tr ! Suc n) = right_pos_new (tr ! n)"
      if n: "n < length fs" for n
    proof -
      let ?s = "tr ! n" and ?f = "fs ! n"
      have b: "button_B (frame ?s ?f) = 1" and rl': "render_lag (frame ?s ?f) = k"
        and rl: "render_lag ?s = k"
        using H [of "Suc n"] H [of n] n by (simp_all add: step)
      note P = frame_poses [OF b]
      show ?thesis
      proof (cases "count (frame ?s ?f) = 0")
        case True
        then show ?thesis using P by (simp add: step [OF n])
      next
        case False
        have "\<not> (count ?s = 0 \<and> render_lag ?s = 0)"
          using False rl rl' by (auto simp add: count_frame)
        with S [of n] n have "left_pos_old ?s = left_pos_new ?s"
          "right_pos_old ?s = right_pos_new ?s"
          by (auto simp add: settled_def)
        with False show ?thesis using P by (simp add: step [OF n])
      qed
    qed
    have window: "\<exists>!n. m \<le> n \<and> n \<le> m + nat k \<and> count (tr ! Suc n) = 0"
      if m: "m + nat k < length fs" for m
    proof -
      have K: "0 < k + 1" using k by simp
      have rl: "\<forall>n\<le>length fs. render_lag (trace g fs ! n) = k"
        using H by (simp add: tr)
      have "(m \<le> n \<and> n \<le> m + nat k \<and> count (tr ! Suc n) = 0)
          \<longleftrightarrow> (m \<le> n \<and> int n < int m + (k + 1) \<and> (count g - int (Suc n)) mod (k + 1) = 0)"
        for n
      proof (cases "n \<le> m + nat k")
        case True
        then have "Suc n \<le> length fs" using m by simp
        from count_closed_form [OF k rl this] True k show ?thesis
          by (simp add: tr) linarith
      next
        case False
        then show ?thesis using k by simp
      qed
      then show ?thesis using window_unique [OF K, of m "count g"] by simp
    qed
    show ?thesis using poses window by blast
  qed
  show ?thesis using part0 part1 part2 by blast
qed

theorem render_lag_freeze_witness:
  "count (run start (take 1 (lag2_frames @ six_frames))) = 0
   \<and> list_all (\<lambda>s. render_lag s = 2 \<and> button_B s = 1) (trace (run start lag2_frames) six_frames)
   \<and> map count (trace (run start lag2_frames) six_frames) = [2, 1, 0, 2, 1, 0, 2]
   \<and> map eyeProjections (trace (run start lag2_frames) six_frames)
       = [(M 1, M 2), (M 1, M 2), (M 1, M 2), (M 1, M 2), (M 1, M 2), (M 1, M 2), (M 1, M 2)]
   \<and> map left_pos_new (tl (trace (run start lag2_frames) six_frames))
       = [M 0, M 11, M 11, M 11, M 14, M 14]
   \<and> map right_pos_new (tl (trace (run start lag2_frames) six_frames))
       = [M 0, M 21, M 21, M 21, M 24, M 24]
   \<and> eyeProjections (trace (run start lag2_frames) six_frames ! Suc 3) = (M 1, M 2)
   \<and> (\<exists>!n. 1 \<le> n \<and> n \<le> 1 + nat 2
          \<and> count (trace (run start lag2_frames) six_frames ! Suc n) = 0)"
proof -
  let ?tr = "trace (run start lag2_frames) six_frames"
  have f: "count (run start (take 1 (lag2_frames @ six_frames))) = 0"
    by (simp add: count_defs ex_defs step_defs upt_rec)
  have h: "list_all (\<lambda>s. render_lag s = 2 \<and> button_B s = 1) ?tr"
    by (simp add: count_defs ex_defs step_defs upt_rec)
  have c: "map count ?tr = [2, 1, 0, 2, 1, 0, 2]"
    by (simp add: count_defs ex_defs step_defs upt_rec)
  have p: "map eyeProjections ?tr
      = [(M 1, M 2), (M 1, M 2), (M 1, M 2), (M 1, M 2), (M 1, M 2), (M 1, M 2), (M 1, M 2)]"
    by (simp add: count_defs ex_defs step_defs upt_rec)
  have l: "map left_pos_new (tl ?tr) = [M 0, M 11, M 11, M 11, M 14, M 14]"
    by (simp add: count_defs ex_defs step_defs upt_rec)
  have r: "map right_pos_new (tl ?tr) = [M 0, M 21, M 21, M 21, M 24, M 24]"
    by (simp add: count_defs ex_defs step_defs upt_rec)
  have n: "1 + nat 2 < length six_frames" and n3: "Suc 3 \<le> length six_frames"
    by (simp_all add: six_frames_def)
  note T = render_lag_freeze [where projs = "(M 1, M 2)" and xs = "(- 0.03125, 0.03125)"
      and mem = "((M 0, M 0), M 0, M 0, M 0, M 0)" and pre = lag2_frames and fs = six_frames
      and k = 2, folded start_new]
  from T f n3 have e: "eyeProjections (?tr ! Suc 3) = (M 1, M 2)"
    by blast
  from T h n have "\<exists>!n. 1 \<le> n \<and> n \<le> 1 + nat 2 \<and> count (?tr ! Suc n) = 0"
    by blast
  with f h c p l r e show ?thesis by blast
qed

text \<open>
  After three taps of B the stabilisation mode is 4: with a rendering lag of 0 the
  frame sampling the poses \<open>M 5\<close> and \<open>M 6\<close> passes the previous poses \<open>M 0\<close>.
\<close>

theorem stabilization_counterexample:
  "render_lag frozen_state = 0 \<and> button_B frozen_state = 4
   \<and> frame_calls frozen_state (Some idle, (M 5, M 6)) =
       [(ovrEye_Left, M 1, M 0, True), (ovrEye_Right, M 2, M 0, False)]
   \<and> M 0 \<noteq> M 5 \<and> M 0 \<noteq> M 6"
  by (simp add: ex_defs step_defs)

end
